theory Spec2Isabelle
  imports Complex_Main "HOL-Library.Word"
begin

section \<open>JavaScript numbers\<close>

text \<open>
  The web client (\<^verbatim>\<open>src/web_app/index.js\<close>) computes with JavaScript numbers.  A
  number is modelled by its real value together with the three special values that the
  code's own arithmetic can produce from finite operands: a division by zero gives an
  infinity, and \<^verbatim>\<open>0 / 0\<close> gives \<^verbatim>\<open>NaN\<close>.  Rounding, overflow and the sign of zero are
  not modelled.
\<close>

datatype jsnum = NaN | NegInf | Num real | PosInf

text \<open>The comparison \<^verbatim>\<open>a < b\<close>: false as soon as one side is \<^verbatim>\<open>NaN\<close>.\<close>

fun js_lt :: "jsnum \<Rightarrow> jsnum \<Rightarrow> bool" where
  "js_lt NaN b = False"
| "js_lt a NaN = False"
| "js_lt NegInf NegInf = False"
| "js_lt NegInf b = True"
| "js_lt (Num x) (Num y) = (x < y)"
| "js_lt (Num x) PosInf = True"
| "js_lt (Num x) NegInf = False"
| "js_lt PosInf b = False"

text \<open>The comparison \<^verbatim>\<open>a > b\<close>.\<close>

definition js_gt :: "jsnum \<Rightarrow> jsnum \<Rightarrow> bool" where
  "js_gt a b = js_lt b a"

text \<open>\<^verbatim>\<open>Math.min\<close> and \<^verbatim>\<open>Math.max\<close> return \<^verbatim>\<open>NaN\<close> when an argument is \<^verbatim>\<open>NaN\<close>.\<close>

definition js_min :: "jsnum \<Rightarrow> jsnum \<Rightarrow> jsnum" where
  "js_min a b = (if a = NaN \<or> b = NaN then NaN else if js_lt b a then b else a)"

definition js_max :: "jsnum \<Rightarrow> jsnum \<Rightarrow> jsnum" where
  "js_max a b = (if a = NaN \<or> b = NaN then NaN else if js_lt a b then b else a)"

text \<open>The quotient \<^verbatim>\<open>a / b\<close> of two finite numbers.\<close>

definition js_div :: "real \<Rightarrow> real \<Rightarrow> jsnum" where
  "js_div a b =
     (if b = 0 then (if a = 0 then NaN else if 0 < a then PosInf else NegInf)
      else Num (a / b))"

text \<open>The product \<^verbatim>\<open>a * r\<close> of a number and a finite number.\<close>

fun js_mul :: "jsnum \<Rightarrow> real \<Rightarrow> jsnum" where
  "js_mul NaN r = NaN"
| "js_mul (Num x) r = Num (x * r)"
| "js_mul PosInf r = (if r = 0 then NaN else if 0 < r then PosInf else NegInf)"
| "js_mul NegInf r = (if r = 0 then NaN else if 0 < r then NegInf else PosInf)"

definition in_unit :: "jsnum \<Rightarrow> bool" where
  "in_unit a = (case a of Num x \<Rightarrow> 0 \<le> x \<and> x \<le> 1 | _ \<Rightarrow> False)"

section \<open>Prompt points\<close>

text \<open>
  \<^verbatim>\<open>function clamp(x, min = 0, max = 1) { return Math.max(Math.min(x, max), min); }\<close>
\<close>

definition clamp :: "jsnum \<Rightarrow> jsnum \<Rightarrow> jsnum \<Rightarrow> jsnum" where
  "clamp x mn mx = js_max (js_min x mx) mn"

text \<open>
  A pointer event as the handlers read it: the button, the client coordinates, and the
  rectangle that \<^verbatim>\<open>imageContainer.getBoundingClientRect()\<close> answers when the handler runs.
\<close>

record dom_rect =
  rect_left :: real
  rect_top :: real
  rect_width :: real
  rect_height :: real

record mouse_event =
  button :: nat
  clientX :: real
  clientY :: real
  bounding :: dom_rect

record point =
  position :: "jsnum \<times> jsnum"
  label :: nat

definition getPoint :: "mouse_event \<Rightarrow> point" where
  "getPoint e =
     (let bb = bounding e;
          mouseX = clamp (js_div (clientX e - rect_left bb) (rect_width bb)) (Num 0) (Num 1);
          mouseY = clamp (js_div (clientY e - rect_top bb) (rect_height bb)) (Num 0) (Num 1)
      in \<lparr>position = (mouseX, mouseY), label = (if button e = 2 then 0 else 1)\<rparr>)"

definition point_ok :: "point \<Rightarrow> bool" where
  "point_ok p = (in_unit (fst (position p)) \<and> in_unit (snd (position p)))"

section \<open>Pixel buffers\<close>

text \<open>
  Typed arrays (\<^verbatim>\<open>Uint8Array\<close>, \<^verbatim>\<open>Uint8ClampedArray\<close>) are lists of bytes.  A read past
  the end gives \<^verbatim>\<open>undefined\<close> (\<open>None\<close>); a write past the end is ignored, which is what
  \<open>xs[i := v]\<close> does.
\<close>

type_synonym byte = "8 word"

definition typed_get :: "'a list \<Rightarrow> nat \<Rightarrow> 'a option" where
  "typed_get xs i = (if i < length xs then Some (xs ! i) else None)"

text \<open>A \<^verbatim>\<open>RawImage\<close>: the mask returned by a decode, and the source image.\<close>

record raw_image =
  img_width :: nat
  img_height :: nat
  img_data :: "byte list"

text \<open>A canvas bitmap, RGBA, four bytes a pixel.\<close>

record canvas =
  cv_width :: nat
  cv_height :: nat
  cv_data :: "byte list"

definition blank :: "nat \<Rightarrow> nat \<Rightarrow> byte list" where
  "blank w h = replicate (4 * w * h) 0"

definition pixel_at :: "byte list \<Rightarrow> nat \<Rightarrow> byte list" where
  "pixel_at d i = take 4 (drop (4 * i) d)"

subsection \<open>Mask selection\<close>

text \<open>
  \<^verbatim>\<open>let bestIndex = 0;
  for (let i = 1; i < numMasks; ++i) { if (scores[i] > scores[bestIndex]) bestIndex = i; }\<close>
  The scores are the entries of a \<^verbatim>\<open>Float32Array\<close>, which may be \<^verbatim>\<open>NaN\<close> or infinite.
\<close>

definition select_step :: "jsnum list \<Rightarrow> nat \<Rightarrow> nat \<Rightarrow> nat" where
  "select_step scores i bestIndex =
     (if js_gt (scores ! i) (scores ! bestIndex) then i else bestIndex)"

definition select_best :: "jsnum list \<Rightarrow> nat" where
  "select_best scores = fold (select_step scores) [1..<length scores] 0"

subsection \<open>Overlay rendering\<close>

text \<open>
  \<^verbatim>\<open>for (let i = 0; i < pixelData.length; ++i) {
    if (mask.data[numMasks * i + bestIndex] === 1) {
      const offset = 4 * i;
      pixelData[offset] = 0; pixelData[offset + 1] = 114;
      pixelData[offset + 2] = 189; pixelData[offset + 3] = 255; } }\<close>
  The loop runs over the bytes of the buffer, four times the number of pixels; beyond the
  last pixel the reads are \<^verbatim>\<open>undefined\<close> or the writes fall outside the buffer.
\<close>

definition highlight :: "byte list" where
  "highlight = [0, 114, 189, 255]"

definition fill_pixel :: "byte list \<Rightarrow> nat \<Rightarrow> byte list" where
  "fill_pixel px i = px[4 * i := 0, 4 * i + 1 := 114, 4 * i + 2 := 189, 4 * i + 3 := 255]"

definition inside :: "byte list \<Rightarrow> nat \<Rightarrow> nat \<Rightarrow> nat \<Rightarrow> bool" where
  "inside mask_data numMasks bestIndex i =
     (typed_get mask_data (numMasks * i + bestIndex) = Some 1)"

definition fill_step :: "byte list \<Rightarrow> nat \<Rightarrow> nat \<Rightarrow> nat \<Rightarrow> byte list \<Rightarrow> byte list" where
  "fill_step mask_data numMasks bestIndex i px =
     (if inside mask_data numMasks bestIndex i then fill_pixel px i else px)"

definition fill_mask :: "byte list \<Rightarrow> nat \<Rightarrow> nat \<Rightarrow> byte list \<Rightarrow> byte list" where
  "fill_mask mask_data numMasks bestIndex px =
     fold (fill_step mask_data numMasks bestIndex) [0..<length px] px"

subsection \<open>Cut extraction\<close>

text \<open>
  \<^verbatim>\<open>for (let i = 0; i < w * h; ++i) {
    const sourceOffset = 3 * i; const targetOffset = 4 * i;
    if (maskPixelData[targetOffset + 3] > 0) {
      for (let j = 0; j < 3; ++j)
        maskPixelData[targetOffset + j] = imagePixelData[sourceOffset + j]; } }\<close>
  Storing \<^verbatim>\<open>undefined\<close> into a \<^verbatim>\<open>Uint8ClampedArray\<close> stores 0.
\<close>

definition to_byte :: "byte option \<Rightarrow> byte" where
  "to_byte v = (case v of None \<Rightarrow> 0 | Some b \<Rightarrow> b)"

definition opaque :: "byte list \<Rightarrow> nat \<Rightarrow> bool" where
  "opaque buf i = (case typed_get buf (4 * i + 3) of None \<Rightarrow> False | Some a \<Rightarrow> a > 0)"

definition copy_channel :: "byte list \<Rightarrow> nat \<Rightarrow> nat \<Rightarrow> byte list \<Rightarrow> byte list" where
  "copy_channel imagePixelData i j buf = buf[4 * i + j := to_byte (typed_get imagePixelData (3 * i + j))]"

definition cut_step :: "byte list \<Rightarrow> nat \<Rightarrow> byte list \<Rightarrow> byte list" where
  "cut_step imagePixelData i buf =
     (if opaque buf i then fold (copy_channel imagePixelData i) [0..<3] buf else buf)"

definition cut_pixels :: "nat \<Rightarrow> nat \<Rightarrow> byte list \<Rightarrow> byte list \<Rightarrow> byte list" where
  "cut_pixels w h imagePixelData maskPixelData =
     fold (cut_step imagePixelData) [0..<w * h] maskPixelData"

section \<open>The session state\<close>

text \<open>
  The module-level variables of \<^verbatim>\<open>index.js\<close> and the parts of the page that the
  handlers read or write (the cut button, the upload and load buttons, the mask canvas,
  the status label).  The icons and the background image of the container are decoration
  and are left out.  Every \<^verbatim>\<open>await\<close> of the source is a suspension: the pending call is a
  \<open>task\<close> of the state, and a later \<open>Settle\<close> event runs the continuation, so that other
  handlers run in between, as they do in the browser.  Two awaits are folded into the
  step next to them, since no state is read or written across them:
  \<^verbatim>\<open>response.blob()\<close> into the fetch of the frame, and \<^verbatim>\<open>convertToBlob\<close> into the click
  on the cut button.  An exception that nobody catches is recorded in \<open>uncaught\<close>.

  The status label is a value of \<open>status\<close>; \<open>Segment_score s\<close> stands for the text
  \<^verbatim>\<open>Segment score:\<close> followed by \<open>s\<close> with two decimals.  Images, embeddings and
  prediction tensors of the inference library are opaque: an embedding and a prediction
  are numbers that name them.  \<open>model\<close> is the loaded model and processor pair.
\<close>

datatype status =
    Loading_model | Ready | Extracting_embedding | Embedding_extracted
  | Segment_score jsnum | Busy_wait | Loading_frame | Failed_frame
  | Sending_mask | Mask_sent | Failed_mask

datatype js_error = TypeError | IndexSizeError | Rejection

datatype model_key = Slimsam | Sam_vit_base | Sam_vit_large

datatype url = ExampleURL | DataURL nat | ObjectURL nat

datatype origin = Direct | FromAviUtl2

record processed =
  original_sizes :: "(real \<times> real) list"
  reshaped_input_sizes :: "(real \<times> real) list"

record decode_call =
  call_model :: model_key
  call_embeddings :: "nat option"
  input_points :: "jsnum list"
  input_labels :: "int list"
  num_points :: nat

record model_output =
  pred_masks :: nat
  iou_scores :: "jsnum list"

datatype task =
    T_model decode_call
  | T_post model_output model_key processed
  | T_fromURL url origin
  | T_processor origin
  | T_embed origin
  | T_frame
  | T_upload canvas
  | T_load model_key

datatype outcome =
    Rejected | Done | GotImage raw_image | GotProcessed processed
  | GotEmbedding nat | GotResponse bool nat

record session =
  isEncoding :: bool
  isDecoding :: bool
  decodePending :: bool
  lastPoints :: "point list option"
  isMultiMaskMode :: bool
  imageInput :: "raw_image option"
  imageProcessed :: "processed option"
  imageEmbeddings :: "nat option"
  currentModelKey :: model_key
  model :: model_key
  cutDisabled :: bool
  loadDisabled :: bool
  uploadShown :: bool
  maskCanvas :: canvas
  statusText :: status
  tasks :: "task list"
  downloads :: "canvas list"
  uploads :: "canvas list"
  uncaught :: "js_error list"

text \<open>
  The inference collaborator: what the model answers to a decode call, and the mask image
  \<^verbatim>\<open>RawImage.fromTensor(masks[0][0])\<close> that post-processing makes of it.
\<close>

record environment =
  run_model :: "decode_call \<Rightarrow> model_output"
  post_process_masks :: "model_key \<Rightarrow> nat \<Rightarrow> processed \<Rightarrow> raw_image"

definition throw :: "js_error \<Rightarrow> session \<Rightarrow> session" where
  "throw e st = st\<lparr>uncaught := uncaught st @ [e]\<rparr>"

definition spawn :: "task \<Rightarrow> session \<Rightarrow> session" where
  "spawn t st = st\<lparr>tasks := tasks st @ [t]\<rparr>"

subsection \<open>updateMaskOverlay\<close>

definition sync_canvas :: "canvas \<Rightarrow> raw_image \<Rightarrow> canvas" where
  "sync_canvas cv msk =
     (if cv_width cv \<noteq> img_width msk \<or> cv_height cv \<noteq> img_height msk
      then \<lparr>cv_width = img_width msk, cv_height = img_height msk,
            cv_data = blank (img_width msk) (img_height msk)\<rparr>
      else cv)"

text \<open>
  \<^verbatim>\<open>createImageData\<close> refuses a zero width or height, and \<^verbatim>\<open>scores[bestIndex].toFixed(2)\<close>
  throws when there is no score.  The canvas may already have been resized then.
\<close>

definition updateMaskOverlay :: "session \<Rightarrow> raw_image \<Rightarrow> jsnum list \<Rightarrow> session \<times> js_error option" where
  "updateMaskOverlay st msk scores =
     (let cv = sync_canvas (maskCanvas st) msk;
          st1 = st\<lparr>maskCanvas := cv\<rparr>
      in if cv_width cv = 0 \<or> cv_height cv = 0 then (st1, Some IndexSizeError)
         else
           let imageData = blank (cv_width cv) (cv_height cv);
               numMasks = length scores;
               bestIndex = select_best scores
           in case typed_get scores bestIndex of
                None \<Rightarrow> (st1, Some TypeError)
              | Some score \<Rightarrow>
                  (st1\<lparr>statusText := Segment_score score,
                       maskCanvas := cv\<lparr>cv_data := fill_mask (img_data msk) numMasks bestIndex imageData\<rparr>\<rparr>,
                   None))"

text \<open>The overlay that a successful render leaves, whatever the canvas held before.\<close>

definition render_overlay :: "raw_image \<Rightarrow> jsnum list \<Rightarrow> canvas" where
  "render_overlay msk scores =
     \<lparr>cv_width = img_width msk, cv_height = img_height msk,
      cv_data = fill_mask (img_data msk) (length scores) (select_best scores)
                  (blank (img_width msk) (img_height msk))\<rparr>"

subsection \<open>clearPointsAndMask and resetImageState\<close>

definition clearPointsAndMask :: "session \<Rightarrow> session" where
  "clearPointsAndMask st =
     st\<lparr>isMultiMaskMode := False, lastPoints := None, cutDisabled := True,
        maskCanvas := (maskCanvas st)\<lparr>cv_data :=
          blank (cv_width (maskCanvas st)) (cv_height (maskCanvas st))\<rparr>\<rparr>"

definition resetImageState :: "session \<Rightarrow> session" where
  "resetImageState st =
     (clearPointsAndMask
        (st\<lparr>imageInput := None, imageProcessed := None, imageEmbeddings := None,
            isEncoding := False, isDecoding := False, decodePending := False\<rparr>))
     \<lparr>cutDisabled := True, uploadShown := True, statusText := Ready\<rparr>"

subsection \<open>decode\<close>

text \<open>
  \<^verbatim>\<open>lastPoints.map((x) => [x.position[0] * reshaped[1], x.position[1] * reshaped[0]])\<close>:
  \<^verbatim>\<open>reshaped\<close> is only read when there is a point.
\<close>

definition scale_points :: "(real \<times> real) option \<Rightarrow> point list \<Rightarrow> jsnum list option" where
  "scale_points reshaped pts =
     (case reshaped of
        None \<Rightarrow> (if pts = [] then Some [] else None)
      | Some r \<Rightarrow>
          Some (concat (map (\<lambda>x. [js_mul (fst (position x)) (snd r),
                                   js_mul (snd (position x)) (fst r)]) pts)))"

text \<open>
  The block ``Prepare inputs for decoding'': the arguments of the inference call, read
  from the store when the call is made.  \<open>None\<close> stands for the \<^verbatim>\<open>TypeError\<close> of a
  missing \<^verbatim>\<open>imageProcessed\<close>, \<^verbatim>\<open>lastPoints\<close> or \<^verbatim>\<open>reshaped\<close>.
\<close>

definition make_call :: "session \<Rightarrow> decode_call option" where
  "make_call st =
     (case imageProcessed st of
        None \<Rightarrow> None
      | Some ip \<Rightarrow>
         (case lastPoints st of
            None \<Rightarrow> None
          | Some pts \<Rightarrow>
             (case scale_points (typed_get (reshaped_input_sizes ip) 0) pts of
                None \<Rightarrow> None
              | Some points \<Rightarrow>
                  Some \<lparr>call_model = model st,
                        call_embeddings = imageEmbeddings st,
                        input_points = points,
                        input_labels = map (\<lambda>x. int (label x)) pts,
                        num_points = length pts\<rparr>)))"

definition decode :: "session \<Rightarrow> session" where
  "decode st =
     (if isDecoding st then st\<lparr>decodePending := True\<rparr>
      else
        let st1 = st\<lparr>isDecoding := True\<rparr> in
        case make_call st1 of
          None \<Rightarrow> throw TypeError st1
        | Some c \<Rightarrow> spawn (T_model c) st1)"

text \<open>The continuation of \<^verbatim>\<open>decode\<close> after \<^verbatim>\<open>await model(...)\<close>.\<close>

definition decode_after_model :: "environment \<Rightarrow> session \<Rightarrow> decode_call \<Rightarrow> session" where
  "decode_after_model env st c =
     (case imageProcessed st of
        None \<Rightarrow> throw TypeError st
      | Some ip \<Rightarrow> spawn (T_post (run_model env c) (model st) ip) st)"

text \<open>The continuation after \<^verbatim>\<open>await processor.post_process_masks(...)\<close>.\<close>

definition decode_after_post :: "environment \<Rightarrow> session \<Rightarrow> model_output \<Rightarrow> model_key \<Rightarrow> processed \<Rightarrow> session" where
  "decode_after_post env st out k ip =
     (let st1 = st\<lparr>isDecoding := False\<rparr> in
      case updateMaskOverlay st1 (post_process_masks env k (pred_masks out) ip) (iou_scores out) of
        (st2, Some e) \<Rightarrow> throw e st2
      | (st2, None) \<Rightarrow>
          (if decodePending st2 then decode (st2\<lparr>decodePending := False\<rparr>) else st2))"

subsection \<open>Pointer handlers\<close>

definition mousedown_ignored :: "session \<Rightarrow> mouse_event \<Rightarrow> bool" where
  "mousedown_ignored st e =
     ((button e \<noteq> 0 \<and> button e \<noteq> 2) \<or> imageEmbeddings st = None)"

definition mousedown :: "session \<Rightarrow> mouse_event \<Rightarrow> session" where
  "mousedown st e =
     (if mousedown_ignored st e then st
      else
        let st1 = (if \<not> isMultiMaskMode st
                   then st\<lparr>lastPoints := Some [], isMultiMaskMode := True, cutDisabled := False\<rparr>
                   else st)
        in case lastPoints st1 of
             None \<Rightarrow> throw TypeError st1
           | Some pts \<Rightarrow> decode (st1\<lparr>lastPoints := Some (pts @ [getPoint e])\<rparr>))"

definition mousemove_ignored :: "session \<Rightarrow> bool" where
  "mousemove_ignored st = (imageEmbeddings st = None \<or> isMultiMaskMode st)"

definition mousemove :: "session \<Rightarrow> mouse_event \<Rightarrow> session" where
  "mousemove st e =
     (if mousemove_ignored st then st
      else decode (st\<lparr>lastPoints := Some [getPoint e]\<rparr>))"

subsection \<open>encode and the image-load paths\<close>

text \<open>What the caller of \<^verbatim>\<open>encode\<close> does when the call returns or throws.\<close>

definition encode_returned :: "session \<Rightarrow> origin \<Rightarrow> session" where
  "encode_returned st cl =
     (case cl of
        Direct \<Rightarrow> st
      | FromAviUtl2 \<Rightarrow> st\<lparr>statusText := Ready, loadDisabled := False\<rparr>)"

definition encode_threw :: "session \<Rightarrow> origin \<Rightarrow> session" where
  "encode_threw st cl =
     (case cl of
        Direct \<Rightarrow> throw Rejection st
      | FromAviUtl2 \<Rightarrow> st\<lparr>statusText := Failed_frame, loadDisabled := False\<rparr>)"

definition encode :: "session \<Rightarrow> url \<Rightarrow> origin \<Rightarrow> session" where
  "encode st u cl =
     (if isEncoding st then encode_returned st cl
      else spawn (T_fromURL u cl) (st\<lparr>isEncoding := True, statusText := Extracting_embedding\<rparr>))"

definition encode_after_fromURL :: "session \<Rightarrow> raw_image \<Rightarrow> origin \<Rightarrow> session" where
  "encode_after_fromURL st img cl =
     spawn (T_processor cl) (st\<lparr>imageInput := Some img, uploadShown := False, cutDisabled := True\<rparr>)"

definition encode_after_processor :: "session \<Rightarrow> processed \<Rightarrow> origin \<Rightarrow> session" where
  "encode_after_processor st ip cl = spawn (T_embed cl) (st\<lparr>imageProcessed := Some ip\<rparr>)"

definition encode_after_embed :: "session \<Rightarrow> nat \<Rightarrow> origin \<Rightarrow> session" where
  "encode_after_embed st emb cl =
     encode_returned
       (st\<lparr>imageEmbeddings := Some emb, statusText := Embedding_extracted, isEncoding := False\<rparr>) cl"

definition loadFromAviUtl2 :: "session \<Rightarrow> session" where
  "loadFromAviUtl2 st =
     (if isEncoding st \<or> isDecoding st then st\<lparr>statusText := Busy_wait\<rparr>
      else spawn T_frame ((resetImageState st)\<lparr>loadDisabled := True, statusText := Loading_frame\<rparr>))"

definition load_after_fetch :: "session \<Rightarrow> bool \<Rightarrow> nat \<Rightarrow> session" where
  "load_after_fetch st ok b =
     (if \<not> ok then st\<lparr>statusText := Failed_frame, loadDisabled := False\<rparr>
      else encode st (ObjectURL b) FromAviUtl2)"

definition model_select_change :: "session \<Rightarrow> model_key \<Rightarrow> session" where
  "model_select_change st k =
     spawn (T_load k) ((resetImageState st)\<lparr>statusText := Loading_model, currentModelKey := k\<rparr>)"

subsection \<open>The cut button\<close>

text \<open>
  \<^verbatim>\<open>getImageData\<close> refuses an empty rectangle and \<^verbatim>\<open>imageInput.data\<close> throws without an
  image.  The encoded blob is identified with the bitmap it encodes; it is handed to the
  download link (\<open>downloads\<close>) and, as the body of the POST request, to the remote sink
  (\<open>uploads\<close>).
\<close>

definition cut_click :: "session \<Rightarrow> session" where
  "cut_click st =
     (let w = cv_width (maskCanvas st); h = cv_height (maskCanvas st) in
      if w = 0 \<or> h = 0 then throw IndexSizeError st
      else
        case imageInput st of
          None \<Rightarrow> throw TypeError st
        | Some img \<Rightarrow>
            let blob = \<lparr>cv_width = w, cv_height = h,
                        cv_data = cut_pixels w h (img_data img) (cv_data (maskCanvas st))\<rparr>
            in spawn (T_upload blob)
                 (st\<lparr>downloads := downloads st @ [blob], statusText := Sending_mask,
                     uploads := uploads st @ [blob]\<rparr>))"

definition cut_after_fetch :: "session \<Rightarrow> bool \<Rightarrow> session" where
  "cut_after_fetch st ok = st\<lparr>statusText := (if ok then Mask_sent else Failed_mask)\<rparr>"

subsection \<open>Events\<close>

datatype event =
    MouseDown mouse_event | MouseMove mouse_event | ClearClick | ResetClick
  | FileLoaded nat | ExampleClick | LoadFromAviUtl2Click | ModelSelectChange model_key
  | CutClick | Settle nat outcome

text \<open>
  The continuation of a settled task; \<open>None\<close> when the outcome is not one this kind of
  call can have.  The state passed has the task already removed.
\<close>

fun resume :: "environment \<Rightarrow> session \<Rightarrow> task \<Rightarrow> outcome \<Rightarrow> session option" where
  "resume env st (T_model c) Done = Some (decode_after_model env st c)"
| "resume env st (T_model c) Rejected = Some (throw Rejection st)"
| "resume env st (T_post out k ip) Done = Some (decode_after_post env st out k ip)"
| "resume env st (T_post out k ip) Rejected = Some (throw Rejection st)"
| "resume env st (T_fromURL u cl) (GotImage img) = Some (encode_after_fromURL st img cl)"
| "resume env st (T_fromURL u cl) Rejected = Some (encode_threw st cl)"
| "resume env st (T_processor cl) (GotProcessed ip) = Some (encode_after_processor st ip cl)"
| "resume env st (T_processor cl) Rejected = Some (encode_threw st cl)"
| "resume env st (T_embed cl) (GotEmbedding emb) = Some (encode_after_embed st emb cl)"
| "resume env st (T_embed cl) Rejected = Some (encode_threw st cl)"
| "resume env st T_frame (GotResponse ok b) = Some (load_after_fetch st ok b)"
| "resume env st T_frame Rejected = Some (st\<lparr>statusText := Failed_frame, loadDisabled := False\<rparr>)"
| "resume env st (T_upload blob) (GotResponse ok b) = Some (cut_after_fetch st ok)"
| "resume env st (T_upload blob) Rejected = Some (st\<lparr>statusText := Failed_mask\<rparr>)"
| "resume env st (T_load k) Done = Some (st\<lparr>model := k, statusText := Ready\<rparr>)"
| "resume env st (T_load k) Rejected = Some (throw Rejection st)"
| "resume env st t r = None"

definition settle :: "environment \<Rightarrow> session \<Rightarrow> nat \<Rightarrow> outcome \<Rightarrow> session" where
  "settle env st k r =
     (if k < length (tasks st)
      then (case resume env (st\<lparr>tasks := take k (tasks st) @ drop (Suc k) (tasks st)\<rparr>)
                   (tasks st ! k) r of
              None \<Rightarrow> st
            | Some st' \<Rightarrow> st')
      else st)"

fun step :: "environment \<Rightarrow> session \<Rightarrow> event \<Rightarrow> session" where
  "step env st (MouseDown e) = mousedown st e"
| "step env st (MouseMove e) = mousemove st e"
| "step env st ClearClick = clearPointsAndMask st"
| "step env st ResetClick = resetImageState st"
| "step env st (FileLoaded n) = encode st (DataURL n) Direct"
| "step env st ExampleClick = encode st ExampleURL Direct"
| "step env st LoadFromAviUtl2Click = loadFromAviUtl2 st"
| "step env st (ModelSelectChange k) = model_select_change st k"
| "step env st CutClick = cut_click st"
| "step env st (Settle k r) = settle env st k r"

definition run :: "environment \<Rightarrow> session \<Rightarrow> event list \<Rightarrow> session" where
  "run env st evs = foldl (step env) st evs"

text \<open>
  The state of the page once the module's top-level code has run and the model is loaded.
  The page's markup is not among the sources: the bitmap of the mask canvas is a
  parameter, and the cut button starts disabled.
\<close>

definition init_session :: "canvas \<Rightarrow> session" where
  "init_session cv =
     \<lparr>isEncoding = False, isDecoding = False, decodePending = False, lastPoints = None,
      isMultiMaskMode = False, imageInput = None, imageProcessed = None,
      imageEmbeddings = None, currentModelKey = Slimsam, model = Slimsam,
      cutDisabled = True, loadDisabled = False, uploadShown = True, maskCanvas = cv,
      statusText = Ready, tasks = [], downloads = [], uploads = [], uncaught = []\<rparr>"

section \<open>Predicates of the specification\<close>



text \<open>The point session: the three variables that the export button depends on.\<close>

definition point_session :: "session \<Rightarrow> point list option \<times> bool \<times> bool" where
  "point_session st = (lastPoints st, isMultiMaskMode st, cutDisabled st)"

text \<open>
  A pointer event none of whose coordinates is the quotient 0 / 0: the rectangle of the
  container does not have width 0 with the cursor on its left edge, nor height 0 with
  the cursor on its top edge.
\<close>

definition nondegenerate :: "mouse_event \<Rightarrow> bool" where
  "nondegenerate e =
     (\<not> (clientX e = rect_left (bounding e) \<and> rect_width (bounding e) = 0) \<and>
      \<not> (clientY e = rect_top (bounding e) \<and> rect_height (bounding e) = 0))"

fun pointer_ok :: "event \<Rightarrow> bool" where
  "pointer_ok (MouseDown e) = nondegenerate e"
| "pointer_ok (MouseMove e) = nondegenerate e"
| "pointer_ok ev = True"

definition points_ok :: "session \<Rightarrow> bool" where
  "points_ok st = (case lastPoints st of None \<Rightarrow> True | Some ps \<Rightarrow> list_all point_ok ps)"

text \<open>The blob that the cut handler encodes from the canvas and the source image.\<close>

definition png_of :: "session \<Rightarrow> raw_image \<Rightarrow> canvas" where
  "png_of st img =
     \<lparr>cv_width = cv_width (maskCanvas st), cv_height = cv_height (maskCanvas st),
      cv_data = cut_pixels (cv_width (maskCanvas st)) (cv_height (maskCanvas st))
                  (img_data img) (cv_data (maskCanvas st))\<rparr>"

text \<open>The suspended calls of \<^verbatim>\<open>decode\<close> and of \<^verbatim>\<open>encode\<close>.\<close>

definition is_decode_task :: "task \<Rightarrow> bool" where
  "is_decode_task t = (case t of T_model c \<Rightarrow> True | T_post out k ip \<Rightarrow> True | _ \<Rightarrow> False)"

definition is_encode_task :: "task \<Rightarrow> bool" where
  "is_encode_task t =
     (case t of T_fromURL u cl \<Rightarrow> True | T_processor cl \<Rightarrow> True | T_embed cl \<Rightarrow> True | _ \<Rightarrow> False)"


text \<open>What an image load by \<^verbatim>\<open>encode\<close> leaves alone.\<close>

definition overlay_session :: "session \<Rightarrow> point list option \<times> bool \<times> canvas" where
  "overlay_session st = (lastPoints st, isMultiMaskMode st, maskCanvas st)"

text \<open>
  The events that reset the session (the Reset button and a model change both run
  \<^verbatim>\<open>resetImageState\<close>), and the completion of the last stage of a load.
\<close>

fun resets :: "event \<Rightarrow> bool" where
  "resets ResetClick = True"
| "resets (ModelSelectChange k) = True"
| "resets ev = False"

fun embed_success :: "event \<Rightarrow> bool" where
  "embed_success (Settle k (GotEmbedding emb)) = True"
| "embed_success ev = False"

text \<open>The number of calls of \<^verbatim>\<open>encode\<close> that are suspended at one of its awaits.\<close>

definition loads_in_flight :: "session \<Rightarrow> nat" where
  "loads_in_flight st = length (filter is_encode_task (tasks st))"

text \<open>
  What the loads see of the session, and the invariant of their busy flag: a load is in
  flight only while the flag is set, and then it is the only one.
\<close>

definition load_view :: "session \<Rightarrow> bool \<times> task list" where
  "load_view st = (isEncoding st, filter is_encode_task (tasks st))"

definition load_inv :: "session \<Rightarrow> bool" where
  "load_inv st = (loads_in_flight st \<le> (if isEncoding st then 1 else 0))"

text \<open>
  What the decodes see of the session, and a session whose decode flag is set although
  no call of \<^verbatim>\<open>decode\<close> is in flight.
\<close>

definition decode_view :: "session \<Rightarrow> bool \<times> task list" where
  "decode_view st = (isDecoding st, filter is_decode_task (tasks st))"

definition decode_stuck :: "session \<Rightarrow> bool" where
  "decode_stuck st = (isDecoding st \<and> filter is_decode_task (tasks st) = [])"

section \<open>The decode pipeline\<close>

text \<open>
  The events of a decode burst: clicks, pointer moves, and successful completions of
  suspended calls.  \<open>requests_decode\<close> holds when the handler of a pointer event gets
  past its guards and calls \<^verbatim>\<open>decode\<close>.
\<close>

fun decode_traffic :: "event \<Rightarrow> bool" where
  "decode_traffic (MouseDown e) = True"
| "decode_traffic (MouseMove e) = True"
| "decode_traffic (Settle k Done) = True"
| "decode_traffic ev = False"

fun is_settle :: "event \<Rightarrow> bool" where
  "is_settle (Settle k Done) = True"
| "is_settle ev = False"

fun requests_decode :: "session \<Rightarrow> event \<Rightarrow> bool" where
  "requests_decode st (MouseDown e) = (\<not> mousedown_ignored st e)"
| "requests_decode st (MouseMove e) = (\<not> mousemove_ignored st)"
| "requests_decode st ev = False"

text \<open>
  A ready session has an embedding and the processed image it was made from, and nothing
  in flight.
\<close>

definition proc_ok :: "session \<Rightarrow> bool" where
  "proc_ok st = (case imageProcessed st of None \<Rightarrow> False | Some ip \<Rightarrow> reshaped_input_sizes ip \<noteq> [])"

definition ready :: "session \<Rightarrow> bool" where
  "ready st = (tasks st = [] \<and> \<not> isDecoding st \<and> \<not> decodePending st \<and>
               imageEmbeddings st \<noteq> None \<and> proc_ok st \<and>
               (isMultiMaskMode st \<longrightarrow> lastPoints st \<noteq> None))"

text \<open>
  The inference collaborator returns at least one candidate score and a mask of positive
  width and height.
\<close>

definition wf_env :: "environment \<Rightarrow> bool" where
  "wf_env env = ((\<forall>c. iou_scores (run_model env c) \<noteq> []) \<and>
                 (\<forall>k p ip. 0 < img_width (post_process_masks env k p ip) \<and>
                           0 < img_height (post_process_masks env k p ip)))"

text \<open>
  The inference call that carries a point list, written from the specification and not
  from \<^verbatim>\<open>decode\<close> (``issue exactly one inference call using the current PointStore
  contents and ImageEmbedding''): the loaded model, the embedding, the points in the
  order of the list, each with its x coordinate scaled to the width and its y coordinate
  to the height of the model's input, and the label of each point.
\<close>

fun scaled :: "real \<times> real \<Rightarrow> point list \<Rightarrow> jsnum list" where
  "scaled hw [] = []"
| "scaled hw (p # ps) =
     js_mul (fst (position p)) (snd hw) # js_mul (snd (position p)) (fst hw) # scaled hw ps"

fun labels_of :: "point list \<Rightarrow> int list" where
  "labels_of [] = []"
| "labels_of (p # ps) = int (label p) # labels_of ps"

definition points_call :: "model_key \<Rightarrow> nat option \<Rightarrow> real \<times> real \<Rightarrow> point list \<Rightarrow> decode_call" where
  "points_call k emb hw pts =
     \<lparr>call_model = k, call_embeddings = emb, input_points = scaled hw pts,
      input_labels = labels_of pts, num_points = length pts\<rparr>"

text \<open>
  The mask that corresponds to a point list: the candidates that the collaborator returns
  for the call carrying these points, post-processed, the best one selected and rendered
  on an empty overlay.
\<close>

definition overlay_of_points ::
    "environment \<Rightarrow> model_key \<Rightarrow> nat option \<Rightarrow> processed \<Rightarrow> point list \<Rightarrow> canvas option" where
  "overlay_of_points env k emb ip pts =
     (case reshaped_input_sizes ip of
        [] \<Rightarrow> None
      | hw # rest \<Rightarrow>
          Some (render_overlay
                 (post_process_masks env k (pred_masks (run_model env (points_call k emb hw pts))) ip)
                 (iou_scores (run_model env (points_call k emb hw pts)))))"

definition points_overlay :: "environment \<Rightarrow> session \<Rightarrow> canvas option" where
  "points_overlay env st =
     (case lastPoints st of
        None \<Rightarrow> None
      | Some pts \<Rightarrow>
         (case imageProcessed st of
            None \<Rightarrow> None
          | Some ip \<Rightarrow> overlay_of_points env (model st) (imageEmbeddings st) ip pts))"

text \<open>What a decode reads besides the points.\<close>

definition decode_inputs :: "session \<Rightarrow> model_key \<times> nat option \<times> processed option" where
  "decode_inputs st = (model st, imageEmbeddings st, imageProcessed st)"

text \<open>The point that a pointer event asks to decode.\<close>

fun request_point :: "event \<Rightarrow> point option" where
  "request_point (MouseDown e) = Some (getPoint e)"
| "request_point (MouseMove e) = Some (getPoint e)"
| "request_point ev = None"

text \<open>The shape of the decode pipeline, and the freshness of the call in flight.\<close>

fun shape_ok :: "environment \<Rightarrow> session \<Rightarrow> task list \<Rightarrow> bool" where
  "shape_ok env st [] = (\<not> isDecoding st \<and> \<not> decodePending st)"
| "shape_ok env st [T_model c] = (isDecoding st \<and> lastPoints st \<noteq> None)"
| "shape_ok env st [T_post out k ip] =
     (isDecoding st \<and> lastPoints st \<noteq> None \<and> k = model st \<and> imageProcessed st = Some ip \<and>
      (\<exists>c. out = run_model env c))"
| "shape_ok env st ts = False"

fun fresh_ok :: "environment \<Rightarrow> session \<Rightarrow> task list \<Rightarrow> bool" where
  "fresh_ok env st [T_model c] = (make_call st = Some c)"
| "fresh_ok env st [T_post out k ip] = (\<exists>c. make_call st = Some c \<and> out = run_model env c)"
| "fresh_ok env st ts = True"

definition shape :: "environment \<Rightarrow> session \<Rightarrow> bool" where
  "shape env st = (imageEmbeddings st \<noteq> None \<and> proc_ok st \<and>
               (isMultiMaskMode st \<longrightarrow> lastPoints st \<noteq> None) \<and> shape_ok env st (tasks st))"

definition fresh :: "environment \<Rightarrow> session \<Rightarrow> bool" where
  "fresh env st = (\<not> decodePending st \<longrightarrow> fresh_ok env st (tasks st))"

text \<open>When nothing is in flight, the canvas shows the overlay of the current points.\<close>

definition settled_ok :: "environment \<Rightarrow> session \<Rightarrow> bool" where
  "settled_ok env st = (tasks st = [] \<longrightarrow> Some (maskCanvas st) = points_overlay env st)"

text \<open>How far the pipeline is from being drained.\<close>

fun rank_of :: "bool \<Rightarrow> task list \<Rightarrow> nat" where
  "rank_of p [] = 0"
| "rank_of p [T_post out k ip] = (if p then 3 else 1)"
| "rank_of p [T_model c] = (if p then 4 else 2)"
| "rank_of p ts = 5"

definition rank :: "session \<Rightarrow> nat" where
  "rank st = rank_of (decodePending st) (tasks st)"

section \<open>Example sessions\<close>

text \<open>
  A small page: a one-pixel canvas, a source image of two pixels, a model that answers
  three candidates with scores 0.7, 0.91, 0.91, and a click in the middle of a container
  of 100 by 100 pixels.  The second environment returns a different mask when the call
  carries the coordinates of exactly two points.
\<close>

definition cv0 :: canvas where
  "cv0 = \<lparr>cv_width = 1, cv_height = 1, cv_data = [0, 0, 0, 0]\<rparr>"

definition img0 :: raw_image where
  "img0 = \<lparr>img_width = 1, img_height = 2, img_data = [10, 20, 30, 40, 50, 60]\<rparr>"

definition ip0 :: processed where
  "ip0 = \<lparr>original_sizes = [(2, 1)], reshaped_input_sizes = [(1024, 512)]\<rparr>"

definition mask0 :: raw_image where
  "mask0 = \<lparr>img_width = 1, img_height = 2, img_data = [0, 1, 0, 0, 0, 1]\<rparr>"

definition mask1 :: raw_image where
  "mask1 = \<lparr>img_width = 1, img_height = 2, img_data = [0, 0, 0, 0, 1, 0]\<rparr>"

definition env0 :: environment where
  "env0 = \<lparr>run_model = (\<lambda>c. \<lparr>pred_masks = 0, iou_scores = [Num (7/10), Num (91/100), Num (91/100)]\<rparr>),
           post_process_masks = (\<lambda>k p ip. mask0)\<rparr>"

definition env1 :: environment where
  "env1 = \<lparr>run_model = (\<lambda>c. \<lparr>pred_masks = length (input_points c),
                                 iou_scores = [Num (7/10), Num (91/100), Num (91/100)]\<rparr>),
           post_process_masks = (\<lambda>k p ip. if p = 4 then mask1 else mask0)\<rparr>"

definition click0 :: mouse_event where
  "click0 = \<lparr>button = 0, clientX = 50, clientY = 60,
             bounding = \<lparr>rect_left = 0, rect_top = 0, rect_width = 100, rect_height = 100\<rparr>\<rparr>"

definition collapsed0 :: mouse_event where
  "collapsed0 = \<lparr>button = 0, clientX = 8, clientY = 50,
             bounding = \<lparr>rect_left = 8, rect_top = 8, rect_width = 0, rect_height = 420\<rparr>\<rparr>"

text \<open>
  Loading the example image, the session it leaves, and the session after one click
  whose decode has completed.
\<close>

definition load_image :: "event list" where
  "load_image = [ExampleClick, Settle 0 (GotImage img0), Settle 0 (GotProcessed ip0),
                 Settle 0 (GotEmbedding 7)]"

definition ready0 :: session where
  "ready0 = (init_session cv0)
     \<lparr>imageInput := Some img0, imageProcessed := Some ip0, imageEmbeddings := Some 7,
      uploadShown := False, statusText := Embedding_extracted\<rparr>"

definition drawn0 :: session where
  "drawn0 = ready0
     \<lparr>lastPoints := Some [\<lparr>position = (Num (1/2), Num (3/5)), label = 1\<rparr>],
      isMultiMaskMode := True, cutDisabled := False,
      maskCanvas := \<lparr>cv_width = 1, cv_height = 2, cv_data = [0, 114, 189, 255, 0, 0, 0, 0]\<rparr>,
      statusText := Segment_score (Num (91/100))\<rparr>"


definition overlapping_loads :: "event list" where
  "overlapping_loads =
     [ExampleClick, ResetClick, FileLoaded 1,
      Settle 0 (GotImage img0), Settle 1 (GotProcessed ip0), Settle 1 (GotEmbedding 7),
      MouseDown click0, Settle 1 Done, Settle 1 Done]"

text \<open>A click, a second click while the first decode is in flight, then completions.\<close>

definition burst :: "event list" where
  "burst = [MouseDown click0, MouseDown click0, Settle 0 Done, Settle 0 Done, Settle 0 Done,
            Settle 0 Done]"

section \<open>Lemmas on the pixel loops\<close>

lemma select_best_example: "select_best [Num (7/10), Num (91/100), Num (91/100)] = 1"
  by (simp add: select_best_def select_step_def js_gt_def upt_rec)

lemma clamp_unit: "x \<noteq> NaN \<Longrightarrow> in_unit (clamp x (Num 0) (Num 1))"
  by (cases x) (auto simp: clamp_def js_min_def js_max_def in_unit_def)

lemma js_div_NaN: "js_div a b = NaN \<longleftrightarrow> a = 0 \<and> b = 0"
  by (auto simp: js_div_def)

lemma js_lt_trans: "js_lt a b \<Longrightarrow> js_lt b c \<Longrightarrow> js_lt a c"
  by (cases a; cases b; cases c) simp_all

lemma js_le_lt_trans:
  "a \<noteq> NaN \<Longrightarrow> b \<noteq> NaN \<Longrightarrow> \<not> js_lt b a \<Longrightarrow> js_lt b c \<Longrightarrow> js_lt a c"
  by (cases a; cases b; cases c) simp_all

lemma select_fold_bound:
  "0 < n \<Longrightarrow> fold (select_step scores) [1..<n] 0 < n"
proof (induction n)
  case 0
  then show ?case by simp
next
  case (Suc n)
  show ?case
  proof (cases "n = 0")
    case True
    then show ?thesis by simp
  next
    case False
    with Suc show ?thesis by (simp add: select_step_def less_Suc_eq)
  qed
qed

lemma select_fold:
  assumes "0 < n" "n \<le> length scores" "NaN \<notin> set scores"
  shows "(\<forall>j<n. \<not> js_gt (scores ! j) (scores ! fold (select_step scores) [1..<n] 0)) \<and>
         (\<forall>j < fold (select_step scores) [1..<n] 0.
            js_gt (scores ! fold (select_step scores) [1..<n] 0) (scores ! j))"
  using assms(1,2)
proof (induction n)
  case 0
  then show ?case by simp
next
  case (Suc n)
  have nn: "\<And>j. j < length scores \<Longrightarrow> scores ! j \<noteq> NaN"
    using assms(3) by (metis nth_mem)
  show ?case
  proof (cases "n = 0")
    case True
    with Suc.prems nn show ?thesis by (cases "scores ! 0") (simp_all add: js_gt_def)
  next
    case False
    let ?b = "fold (select_step scores) [1..<n] 0"
    from False Suc have IH: "\<forall>j<n. \<not> js_gt (scores ! j) (scores ! ?b)"
        "\<forall>j < ?b. js_gt (scores ! ?b) (scores ! j)"
      by auto
    from False have bn: "?b < n" using select_fold_bound [of n scores] by simp
    from False have unf: "fold (select_step scores) [1..<Suc n] 0 = select_step scores n ?b"
      by simp
    have irr: "\<not> js_lt (scores ! n) (scores ! n)"
      using nn [of n] Suc.prems by (cases "scores ! n") simp_all
    show ?thesis
    proof (cases "js_gt (scores ! n) (scores ! ?b)")
      case True
      then have eq: "fold (select_step scores) [1..<Suc n] 0 = n"
        using unf by (simp add: select_step_def)
      have up: "\<not> js_gt (scores ! j) (scores ! n)" if "j < n" for j
        using IH(1) that True js_lt_trans [of "scores ! ?b" "scores ! n" "scores ! j"]
        by (auto simp: js_gt_def)
      have lo: "js_gt (scores ! n) (scores ! j)" if "j < n" for j
        using IH(1) that True Suc.prems bn
          js_le_lt_trans [of "scores ! j" "scores ! ?b" "scores ! n"] nn [of j] nn [of ?b]
        by (auto simp: js_gt_def)
      show ?thesis unfolding eq using up lo irr
        by (auto simp: less_Suc_eq js_gt_def)
    next
      case F2: False
      then have eq: "fold (select_step scores) [1..<Suc n] 0 = ?b"
        using unf by (simp add: select_step_def)
      show ?thesis unfolding eq using IH F2
        by (auto simp: less_Suc_eq)
    qed
  qed
qed

lemma length_fill_pixel: "length (fill_pixel px i) = length px"
  by (simp add: fill_pixel_def)

lemma quad_cases:
  fixes k i :: nat
  obtains (c0) "k = 4 * i" "k div 4 = i" "k mod 4 = 0"
        | (c1) "k = 4 * i + 1" "k div 4 = i" "k mod 4 = 1"
        | (c2) "k = 4 * i + 2" "k div 4 = i" "k mod 4 = 2"
        | (c3) "k = 4 * i + 3" "k div 4 = i" "k mod 4 = 3"
        | (other) "k div 4 \<noteq> i" "k \<noteq> 4 * i" "k \<noteq> 4 * i + 1" "k \<noteq> 4 * i + 2" "k \<noteq> 4 * i + 3"
proof -
  have "k = 4 * (k div 4) + k mod 4" by simp
  moreover have "k mod 4 = 0 \<or> k mod 4 = 1 \<or> k mod 4 = 2 \<or> k mod 4 = 3" by arith
  ultimately show ?thesis
    using c0 c1 c2 c3 other by (cases "k div 4 = i") auto
qed

lemma nth_fill_pixel:
  assumes "k < length px"
  shows "fill_pixel px i ! k = (if k div 4 = i then highlight ! (k mod 4) else px ! k)"
  using assms by (cases rule: quad_cases [of k i]) (simp_all add: fill_pixel_def highlight_def)

lemma length_fill_step: "length (fill_step md nm bi i px) = length px"
  by (simp add: fill_step_def length_fill_pixel)

lemma nth_fill_step:
  "k < length px \<Longrightarrow> fill_step md nm bi i px ! k =
     (if k div 4 = i \<and> inside md nm bi i then highlight ! (k mod 4) else px ! k)"
  by (simp add: fill_step_def nth_fill_pixel)

lemma length_fill_fold:
  "length (fold (fill_step md nm bi) [0..<n] px) = length px"
  by (induction n) (simp_all add: length_fill_step)

lemma nth_fill_fold:
  "k < length px \<Longrightarrow>
   fold (fill_step md nm bi) [0..<n] px ! k =
     (if k div 4 < n \<and> inside md nm bi (k div 4) then highlight ! (k mod 4) else px ! k)"
proof (induction n)
  case 0
  then show ?case by simp
next
  case (Suc n)
  then show ?case
    by (auto simp: nth_fill_step length_fill_fold less_Suc_eq)
qed

lemma length_cut_step: "length (cut_step img i buf) = length buf"
  by (simp add: cut_step_def copy_channel_def upt_rec)

lemma nth_cut_step:
  assumes "k < length buf"
  shows "cut_step img i buf ! k =
     (if k div 4 = i \<and> k mod 4 < 3 \<and> opaque buf i
      then to_byte (typed_get img (3 * i + k mod 4)) else buf ! k)"
  using assms by (cases rule: quad_cases [of k i]) (simp_all add: cut_step_def copy_channel_def upt_rec)

lemma opaque_cut_step: "opaque (cut_step img i buf) p = opaque buf p"
proof -
  have "(4 * p + 3) mod 4 = 3" by arith
  then show ?thesis
    by (simp add: opaque_def typed_get_def length_cut_step nth_cut_step)
qed

lemma length_cut_fold: "length (fold (cut_step img) [0..<n] buf) = length buf"
  by (induction n) (simp_all add: length_cut_step)

lemma opaque_cut_fold: "opaque (fold (cut_step img) [0..<n] buf) p = opaque buf p"
  by (induction n) (simp_all add: opaque_cut_step)

lemma nth_cut_fold:
  "k < length buf \<Longrightarrow>
   fold (cut_step img) [0..<n] buf ! k =
     (if k div 4 < n \<and> k mod 4 < 3 \<and> opaque buf (k div 4)
      then to_byte (typed_get img (3 * (k div 4) + k mod 4)) else buf ! k)"
proof (induction n)
  case 0
  then show ?case by simp
next
  case (Suc n)
  then show ?case
    by (auto simp: nth_cut_step length_cut_fold opaque_cut_fold less_Suc_eq)
qed

lemma pixel_at_nth:
  "4 * i + 3 < length d \<Longrightarrow> pixel_at d i = [d ! (4 * i), d ! (4 * i + 1), d ! (4 * i + 2), d ! (4 * i + 3)]"
  by (auto simp: pixel_at_def list_eq_iff_nth_eq less_Suc_eq numeral_eq_Suc)

lemma select_best_bound: "scores \<noteq> [] \<Longrightarrow> select_best scores < length scores"
  using select_fold_bound [of "length scores" scores] by (simp add: select_best_def)

lemma select_best_props:
  assumes "scores \<noteq> []" "NaN \<notin> set scores"
  shows "\<forall>j<length scores. \<not> js_gt (scores ! j) (scores ! select_best scores)"
    and "\<forall>j < select_best scores. js_gt (scores ! select_best scores) (scores ! j)"
  using select_fold [of "length scores" scores] assms by (simp_all add: select_best_def)

lemma length_fill_mask: "length (fill_mask md nm bi px) = length px"
  by (simp add: fill_mask_def length_fill_fold)

lemma nth_fill_mask:
  "k < length px \<Longrightarrow> fill_mask md nm bi px ! k =
     (if inside md nm bi (k div 4) then highlight ! (k mod 4) else px ! k)"
proof -
  assume k: "k < length px"
  have "k div 4 < length px" using k by (simp add: div_less_dividend less_imp_diff_less  div_le_dividend le_less_trans)
  with k show ?thesis by (simp add: fill_mask_def nth_fill_fold)
qed

lemma canvas_update_data:
  "cv_width cv = w \<Longrightarrow> cv_height cv = h \<Longrightarrow>
   cv\<lparr>cv_data := d\<rparr> = \<lparr>cv_width = w, cv_height = h, cv_data = d\<rparr>"
  by (cases cv) simp

lemma sync_canvas_dims:
  "cv_width (sync_canvas cv m) = img_width m" "cv_height (sync_canvas cv m) = img_height m"
  by (auto simp: sync_canvas_def)

lemma updateMaskOverlay_ok:
  assumes "0 < img_width m" "0 < img_height m" "scores \<noteq> []"
  shows "updateMaskOverlay st m scores =
     (st\<lparr>maskCanvas := render_overlay m scores,
         statusText := Segment_score (scores ! select_best scores)\<rparr>, None)"
  using assms select_best_bound [OF assms(3)]
  by (simp add: updateMaskOverlay_def Let_def sync_canvas_dims typed_get_def render_overlay_def
      canvas_update_data)

lemma render_pixel:
  assumes "i < img_width m * img_height m"
  shows "pixel_at (cv_data (render_overlay m scores)) i =
     (if inside (img_data m) (length scores) (select_best scores) i then highlight else [0, 0, 0, 0])"
proof -
  let ?d = "cv_data (render_overlay m scores)"
  have len: "length ?d = 4 * img_width m * img_height m"
    by (simp add: render_overlay_def length_fill_mask blank_def)
  have b: "4 * i + 3 < length ?d" using assms len by simp
  have d: "(4 * i) div 4 = i" "(4 * i + 1) div 4 = i" "(4 * i + 2) div 4 = i" "(4 * i + 3) div 4 = i"
    by simp_all
  have m: "(4 * i) mod 4 = 0" "(4 * i + 1) mod 4 = 1" "(4 * i + 2) mod 4 = 2" "(4 * i + 3) mod 4 = 3"
    by simp_all arith+
  have n: "\<And>k. k < 4 * img_width m * img_height m \<Longrightarrow> ?d ! k =
     (if inside (img_data m) (length scores) (select_best scores) (k div 4) then highlight ! (k mod 4) else 0)"
    by (simp add: render_overlay_def nth_fill_mask blank_def)
  have k: "4 * i < 4 * img_width m * img_height m" "4 * i + 1 < 4 * img_width m * img_height m"
     "4 * i + 2 < 4 * img_width m * img_height m" "4 * i + 3 < 4 * img_width m * img_height m"
    using assms by simp_all
  show ?thesis
    unfolding pixel_at_nth [OF b] n [OF k(1)] n [OF k(2)] n [OF k(3)] n [OF k(4)] d m
    by (simp add: highlight_def)
qed

lemma render_background:
  assumes "\<forall>p<img_width m * img_height m. \<not> inside (img_data m) (length scores) (select_best scores) p"
  shows "cv_data (render_overlay m scores) = blank (img_width m) (img_height m)"
proof -
  have "\<And>k. k < 4 * img_width m * img_height m \<Longrightarrow> k div 4 < img_width m * img_height m"
    by (simp add: less_mult_imp_div_less mult.commute mult.assoc)
  then show ?thesis using assms
    by (simp add: list_eq_iff_nth_eq render_overlay_def length_fill_mask nth_fill_mask blank_def)
qed

lemma length_cut_pixels: "length (cut_pixels w h img buf) = length buf"
  by (simp add: cut_pixels_def length_cut_fold)

lemma cut_pixel:
  assumes "length buf = 4 * w * h" "i < w * h"
  shows "pixel_at (cut_pixels w h img buf) i =
     (if buf ! (4 * i + 3) > 0
      then [to_byte (typed_get img (3 * i)), to_byte (typed_get img (3 * i + 1)),
            to_byte (typed_get img (3 * i + 2)), buf ! (4 * i + 3)]
      else pixel_at buf i)"
proof -
  let ?d = "cut_pixels w h img buf"
  have b: "4 * i + 3 < length ?d" "4 * i + 3 < length buf" using assms by (simp_all add: length_cut_pixels)
  have d: "(4 * i) div 4 = i" "(4 * i + 1) div 4 = i" "(4 * i + 2) div 4 = i" "(4 * i + 3) div 4 = i"
    by simp_all
  have m: "(4 * i) mod 4 = 0" "(4 * i + 1) mod 4 = 1" "(4 * i + 2) mod 4 = 2" "(4 * i + 3) mod 4 = 3"
    by simp_all arith+
  have n: "\<And>k. k < length buf \<Longrightarrow> k div 4 = i \<Longrightarrow> ?d ! k =
     (if k mod 4 < 3 \<and> opaque buf i
      then to_byte (typed_get img (3 * i + k mod 4)) else buf ! k)"
    using assms(2) by (simp add: cut_pixels_def nth_cut_fold)
  have k: "4 * i < length buf" "4 * i + 1 < length buf" "4 * i + 2 < length buf" "4 * i + 3 < length buf"
    using b by simp_all
  have o: "opaque buf i = (buf ! (4 * i + 3) > 0)"
    using b by (simp add: opaque_def typed_get_def)
  show ?thesis
    unfolding pixel_at_nth [OF b(1)] pixel_at_nth [OF b(2)]
      n [OF k(1) d(1)] n [OF k(2) d(2)] n [OF k(3) d(3)] n [OF k(4) d(4)] m o
    by simp
qed

lemma getPoint_ok:
  assumes "\<not> (clientX e = rect_left (bounding e) \<and> rect_width (bounding e) = 0)"
      and "\<not> (clientY e = rect_top (bounding e) \<and> rect_height (bounding e) = 0)"
  shows "point_ok (getPoint e)"
  using assms by (simp add: point_ok_def getPoint_def Let_def clamp_unit js_div_NaN)

section \<open>Mask selection, overlay rendering and cut extraction\<close>

text \<open>
  On a non-empty candidate set none of whose scores is \<^verbatim>\<open>NaN\<close>, the linear scan of
  \<^verbatim>\<open>updateMaskOverlay\<close> returns a valid index, no candidate has a greater score, and every
  candidate before it has a strictly smaller score: ties keep the first candidate.
\<close>

lemma select_best_first_max:
  assumes "scores \<noteq> []" "NaN \<notin> set scores"
  shows "select_best scores < length scores \<and>
         (\<forall>j < length scores. \<not> js_gt (scores ! j) (scores ! select_best scores)) \<and>
         (\<forall>j < select_best scores. js_gt (scores ! select_best scores) (scores ! j))"
  using select_best_props [OF assms] select_best_bound [OF assms(1)] by simp


text \<open>
  C5.  When the mask has a positive width and height and there is a score, the render
  does not throw, and for every pixel \<open>i\<close> of the canvas the four bytes written are the
  highlight colour 0, 114, 189 at alpha 255 when the label read at
  \<open>numMasks * i + bestIndex\<close> is 1, and four zeros otherwise.  The canvas left by the
  render does not depend on the state before it (a pure overwrite), and a mask with no
  inside label leaves every byte zero.
\<close>

theorem overlay_rendering:
  assumes "0 < img_width m" "0 < img_height m" "scores \<noteq> []"
      and "i < img_width m * img_height m"
  shows "snd (updateMaskOverlay st m scores) = None \<and>
         maskCanvas (fst (updateMaskOverlay st m scores)) =
           maskCanvas (fst (updateMaskOverlay st' m scores)) \<and>
         cv_width (maskCanvas (fst (updateMaskOverlay st m scores))) = img_width m \<and>
         cv_height (maskCanvas (fst (updateMaskOverlay st m scores))) = img_height m \<and>
         pixel_at (cv_data (maskCanvas (fst (updateMaskOverlay st m scores)))) i =
           (if typed_get (img_data m) (length scores * i + select_best scores) = Some 1
            then [0, 114, 189, 255] else [0, 0, 0, 0]) \<and>
         ((\<forall>p < img_width m * img_height m.
              typed_get (img_data m) (length scores * p + select_best scores) \<noteq> Some 1) \<longrightarrow>
          cv_data (maskCanvas (fst (updateMaskOverlay st m scores))) =
            replicate (4 * img_width m * img_height m) 0)"
proof -
  have u: "\<And>s. updateMaskOverlay s m scores =
     (s\<lparr>maskCanvas := render_overlay m scores,
        statusText := Segment_score (scores ! select_best scores)\<rparr>, None)"
    using assms(1-3) by (rule updateMaskOverlay_ok)
  have p: "pixel_at (cv_data (render_overlay m scores)) i =
     (if typed_get (img_data m) (length scores * i + select_best scores) = Some 1
      then [0, 114, 189, 255] else [0, 0, 0, 0])"
    using render_pixel [OF assms(4), of scores] by (simp add: inside_def highlight_def)
  have b: "(\<forall>p < img_width m * img_height m.
              typed_get (img_data m) (length scores * p + select_best scores) \<noteq> Some 1) \<longrightarrow>
           cv_data (render_overlay m scores) = replicate (4 * img_width m * img_height m) 0"
    using render_background [of m scores] by (simp add: inside_def blank_def)
  show ?thesis
    unfolding u using p b by (simp add: render_overlay_def)
qed

theorem overlay_rendering_witness:
  "pixel_at (cv_data (maskCanvas (fst (updateMaskOverlay
      (init_session \<lparr>cv_width = 1, cv_height = 1, cv_data = [9, 9, 9, 9]\<rparr>)
      mask0 [Num (7/10), Num (91/100), Num (91/100)])))) 0 = [0, 114, 189, 255] \<and>
   pixel_at (cv_data (maskCanvas (fst (updateMaskOverlay
      (init_session \<lparr>cv_width = 1, cv_height = 1, cv_data = [9, 9, 9, 9]\<rparr>)
      mask0 [Num (7/10), Num (91/100), Num (91/100)])))) 1 = [0, 0, 0, 0]"
  using overlay_rendering [of mask0 "[Num (7/10), Num (91/100), Num (91/100)]" 0]
        overlay_rendering [of mask0 "[Num (7/10), Num (91/100), Num (91/100)]" 1]
  by (simp add: mask0_def select_best_example typed_get_def)

text \<open>
  C6.  For a working buffer of \<open>w * h\<close> RGBA pixels and a source image of at least
  \<open>w * h\<close> RGB pixels: at every pixel whose overlay alpha is not zero the extracted pixel
  holds the three colour bytes of the source image at that pixel and the overlay's alpha;
  at every pixel whose overlay alpha is zero the extracted pixel is the overlay's pixel,
  unchanged.  With alpha 255 and source colour (10, 20, 30) the pixel is
  (10, 20, 30, 255).
\<close>

theorem cut_extraction:
  assumes "length maskPixelData = 4 * w * h" "3 * w * h \<le> length imagePixelData"
      and "i < w * h"
  shows "(maskPixelData ! (4 * i + 3) \<noteq> 0 \<longrightarrow>
            pixel_at (cut_pixels w h imagePixelData maskPixelData) i =
              [imagePixelData ! (3 * i), imagePixelData ! (3 * i + 1),
               imagePixelData ! (3 * i + 2), maskPixelData ! (4 * i + 3)]) \<and>
         (maskPixelData ! (4 * i + 3) = 0 \<longrightarrow>
            pixel_at (cut_pixels w h imagePixelData maskPixelData) i = pixel_at maskPixelData i) \<and>
         cut_pixels 1 1 [10, 20, 30] [0, 114, 189, 255] = [10, 20, 30, 255]"
proof -
  have "3 * i + 2 < 3 * w * h" using assms(3) by simp
  then have r: "3 * i < length imagePixelData" "3 * i + 1 < length imagePixelData"
      "3 * i + 2 < length imagePixelData"
    using assms(2) by simp_all
  have e: "cut_pixels 1 1 [10, 20, 30] [0, 114, 189, 255] = [10, 20, 30, 255]"
    by (simp add: cut_pixels_def cut_step_def opaque_def typed_get_def copy_channel_def
        to_byte_def upt_rec)
  show ?thesis
    using cut_pixel [OF assms(1) assms(3), of imagePixelData] r e
    by (simp add: typed_get_def to_byte_def word_gt_0)
qed

theorem cut_extraction_witness:
  "pixel_at (cut_pixels 2 1 [10, 20, 30, 40, 50, 60] [0, 114, 189, 255, 0, 0, 0, 0]) 0 =
     [10, 20, 30, 255] \<and>
   pixel_at (cut_pixels 2 1 [10, 20, 30, 40, 50, 60] [0, 114, 189, 255, 0, 0, 0, 0]) 1 =
     [0, 0, 0, 0]"
  using cut_extraction [of "[0, 114, 189, 255, 0, 0, 0, 0]" 2 1 "[10, 20, 30, 40, 50, 60]" 0]
        cut_extraction [of "[0, 114, 189, 255, 0, 0, 0, 0]" 2 1 "[10, 20, 30, 40, 50, 60]" 1]
  by (simp add: pixel_at_def)

section \<open>The point session\<close>

lemma point_session_simps [simp]:
  "point_session (st\<lparr>tasks := a\<rparr>) = point_session st"
  "point_session (st\<lparr>uncaught := b\<rparr>) = point_session st"
  "point_session (st\<lparr>statusText := c\<rparr>) = point_session st"
  "point_session (st\<lparr>isDecoding := d\<rparr>) = point_session st"
  "point_session (st\<lparr>decodePending := e\<rparr>) = point_session st"
  "point_session (st\<lparr>isEncoding := f\<rparr>) = point_session st"
  "point_session (st\<lparr>maskCanvas := g\<rparr>) = point_session st"
  "point_session (st\<lparr>loadDisabled := h\<rparr>) = point_session st"
  "point_session (st\<lparr>imageProcessed := i\<rparr>) = point_session st"
  "point_session (st\<lparr>imageEmbeddings := j\<rparr>) = point_session st"
  "point_session (st\<lparr>imageInput := k\<rparr>) = point_session st"
  "point_session (st\<lparr>uploadShown := l\<rparr>) = point_session st"
  "point_session (st\<lparr>downloads := m\<rparr>) = point_session st"
  "point_session (st\<lparr>uploads := n\<rparr>) = point_session st"
  "point_session (st\<lparr>model := p\<rparr>) = point_session st"
  "point_session (st\<lparr>currentModelKey := q\<rparr>) = point_session st"
  by (simp_all add: point_session_def)

lemma point_session_throw [simp]: "point_session (throw e st) = point_session st"
  by (simp add: throw_def)

lemma point_session_spawn [simp]: "point_session (spawn t st) = point_session st"
  by (simp add: spawn_def)

lemma point_session_decode [simp]: "point_session (decode st) = point_session st"
  by (simp add: decode_def Let_def split: option.splits)

lemma make_call_simps [simp]:
  "make_call (st\<lparr>tasks := a\<rparr>) = make_call st"
  "make_call (st\<lparr>uncaught := b\<rparr>) = make_call st"
  "make_call (st\<lparr>statusText := c\<rparr>) = make_call st"
  "make_call (st\<lparr>isDecoding := d\<rparr>) = make_call st"
  "make_call (st\<lparr>decodePending := e\<rparr>) = make_call st"
  "make_call (st\<lparr>maskCanvas := g\<rparr>) = make_call st"
  "make_call (st\<lparr>cutDisabled := h\<rparr>) = make_call st"
  "make_call (st\<lparr>isMultiMaskMode := i\<rparr>) = make_call st"
  by (simp_all add: make_call_def split: option.splits)

lemma point_session_update:
  "point_session (fst (updateMaskOverlay st m scores)) = point_session st"
  by (simp add: updateMaskOverlay_def Let_def split: option.splits)

lemma point_session_after_post [simp]:
  "point_session (decode_after_post env st out k ip) = point_session st"
proof -
  obtain st2 e where u: "updateMaskOverlay (st\<lparr>isDecoding := False\<rparr>)
      (post_process_masks env k (pred_masks out) ip) (iou_scores out) = (st2, e)"
    by (cases "updateMaskOverlay (st\<lparr>isDecoding := False\<rparr>)
      (post_process_masks env k (pred_masks out) ip) (iou_scores out)")
  from point_session_update [of "st\<lparr>isDecoding := False\<rparr>"
      "post_process_masks env k (pred_masks out) ip" "iou_scores out"] u
  have "point_session st2 = point_session st" by simp
  then show ?thesis
    by (simp add: decode_after_post_def Let_def u split: option.splits)
qed

lemma point_session_after_model [simp]:
  "point_session (decode_after_model env st c) = point_session st"
  by (simp add: decode_after_model_def split: option.splits)

lemma point_session_encode_returned [simp]:
  "point_session (encode_returned st cl) = point_session st"
  by (simp add: encode_returned_def split: origin.splits)

lemma point_session_encode_threw [simp]:
  "point_session (encode_threw st cl) = point_session st"
  by (simp add: encode_threw_def split: origin.splits)

lemma point_session_encode [simp]: "point_session (encode st u cl) = point_session st"
  by (simp add: encode_def)


lemma points_ok_transfer: "points_ok st \<Longrightarrow> point_session st' = point_session st \<Longrightarrow> points_ok st'"
  by (simp add: point_session_def points_ok_def)


lemma resume_point_session:
  "resume env st t r = Some st' \<Longrightarrow>
     point_session st' = point_session st \<or>
     (cutDisabled st' \<and> lastPoints st' = lastPoints st)"
  by (cases "(env, st, t, r)" rule: resume.cases)
     (auto simp: encode_after_fromURL_def encode_after_processor_def encode_after_embed_def
        load_after_fetch_def cut_after_fetch_def spawn_def)

lemma settle_point_session:
  "point_session (settle env st k r) = point_session st \<or>
   (cutDisabled (settle env st k r) \<and> lastPoints (settle env st k r) = lastPoints st)"
proof (cases "k < length (tasks st)")
  case False
  then show ?thesis by (simp add: settle_def)
next
  case True
  let ?st = "st\<lparr>tasks := take k (tasks st) @ drop (Suc k) (tasks st)\<rparr>"
  show ?thesis
  proof (cases "resume env ?st (tasks st ! k) r")
    case None
    with True show ?thesis by (simp add: settle_def)
  next
    case (Some st')
    from resume_point_session [OF Some] True Some show ?thesis
      by (auto simp: settle_def point_session_def)
  qed
qed

lemma decode_point_fields [simp]:
  "lastPoints (decode st) = lastPoints st"
  "isMultiMaskMode (decode st) = isMultiMaskMode st"
  "cutDisabled (decode st) = cutDisabled st"
  using point_session_decode [of st] by (simp_all add: point_session_def)

lemma throw_point_fields [simp]:
  "lastPoints (throw x st) = lastPoints st"
  "isMultiMaskMode (throw x st) = isMultiMaskMode st"
  "cutDisabled (throw x st) = cutDisabled st"
  by (simp_all add: throw_def)








lemma points_ok_mousedown:
  "points_ok st \<Longrightarrow> nondegenerate e \<Longrightarrow> points_ok (mousedown st e)"
  by (auto simp: mousedown_def Let_def points_ok_def nondegenerate_def getPoint_ok
      split: option.splits)

lemma points_ok_mousemove:
  "points_ok st \<Longrightarrow> nondegenerate e \<Longrightarrow> points_ok (mousemove st e)"
  by (auto simp: mousemove_def points_ok_def nondegenerate_def getPoint_ok)

lemma reset_points: "lastPoints (resetImageState st) = None"
  by (simp add: resetImageState_def clearPointsAndMask_def)

lemma points_ok_step:
  assumes "points_ok st" "pointer_ok ev"
  shows "points_ok (step env st ev)"
proof (cases ev)
  case (MouseDown e)
  with assms show ?thesis by (simp add: points_ok_mousedown)
next
  case (MouseMove e)
  with assms show ?thesis by (simp add: points_ok_mousemove)
next
  case ClearClick
  then show ?thesis by (simp add: points_ok_def clearPointsAndMask_def)
next
  case ResetClick
  then show ?thesis by (simp add: points_ok_def reset_points)
next
  case (FileLoaded n)
  show ?thesis unfolding FileLoaded by (rule points_ok_transfer [OF assms(1)]) simp
next
  case ExampleClick
  show ?thesis unfolding ExampleClick by (rule points_ok_transfer [OF assms(1)]) simp
next
  case (Settle k r)
  from settle_point_session [of env st k r]
  have "lastPoints (settle env st k r) = lastPoints st"
    by (auto simp: point_session_def)
  with assms Settle show ?thesis by (simp add: points_ok_def)
next
  case LoadFromAviUtl2Click
  have "lastPoints (loadFromAviUtl2 st) = lastPoints st \<or> lastPoints (loadFromAviUtl2 st) = None"
    using reset_points [of st] by (simp add: loadFromAviUtl2_def spawn_def)
  with assms LoadFromAviUtl2Click show ?thesis by (auto simp: points_ok_def)
next
  case (ModelSelectChange k)
  have "lastPoints (model_select_change st k) = None"
    using reset_points [of st] by (simp add: model_select_change_def spawn_def)
  with ModelSelectChange show ?thesis by (simp add: points_ok_def)
next
  case CutClick
  have "point_session (cut_click st) = point_session st"
    by (simp add: cut_click_def Let_def split: option.splits)
  with CutClick show ?thesis by (simp add: points_ok_transfer [OF assms(1)])
qed

lemma points_ok_run:
  "points_ok st \<Longrightarrow> \<forall>ev\<in>set evs. pointer_ok ev \<Longrightarrow> points_ok (run env st evs)"
  unfolding run_def by (induction evs arbitrary: st) (simp_all add: points_ok_step)

lemmas handler_defs =
  mousedown_def mousedown_ignored_def mousemove_def mousemove_ignored_def decode_def
  decode_after_model_def decode_after_post_def encode_def encode_returned_def encode_threw_def
  encode_after_fromURL_def encode_after_processor_def encode_after_embed_def
  loadFromAviUtl2_def load_after_fetch_def model_select_change_def cut_click_def
  cut_after_fetch_def settle_def spawn_def throw_def clearPointsAndMask_def
  resetImageState_def make_call_def scale_points_def typed_get_def

lemma run_Nil [simp]: "run env st [] = st"
  by (simp add: run_def)

lemma run_Cons [simp]: "run env st (ev # evs) = run env (step env st ev) evs"
  by (simp add: run_def)

lemma run_append: "run env st (xs @ ys) = run env (run env st xs) ys"
  by (simp add: run_def)

lemma ready0_run: "run env0 (init_session cv0) load_image = ready0"
  by (simp add: load_image_def ready0_def init_session_def handler_defs)

lemma getPoint_click0: "getPoint click0 = \<lparr>position = (Num (1/2), Num (3/5)), label = 1\<rparr>"
  by (simp add: getPoint_def click0_def clamp_def js_div_def js_min_def js_max_def)



lemma points_ok_init: "points_ok (init_session cv)"
  by (simp add: points_ok_def init_session_def)










text \<open>
  Away from the quotient 0 / 0 the clamp works: a point built from a pointer event that
  is not degenerate has both coordinates in [0, 1], wherever the cursor lies, and a run
  in which no pointer event is degenerate holds only such points.
\<close>

lemma point_coordinates:
  "(nondegenerate e \<longrightarrow> point_ok (getPoint e)) \<and>
   ((\<forall>ev\<in>set evs. pointer_ok ev) \<longrightarrow> points_ok (run env (init_session cv) evs))"
  using points_ok_run [OF points_ok_init, of evs env cv] getPoint_ok [of e]
  by (auto simp: nondegenerate_def)

text \<open>
  C10.  The claim requires every point built from a pointer event to have its coordinates
  in [0, 1].  \<^verbatim>\<open>clamp\<close> (``clamp a value inside a range [min, max]'') does not do that for
  \<^verbatim>\<open>NaN\<close>, which \<^verbatim>\<open>Math.min\<close> and \<^verbatim>\<open>Math.max\<close> hand through, and \<^verbatim>\<open>getPoint\<close> passes it the
  quotient 0 / 0 when the container's rectangle has width 0 and the cursor is at its left
  edge.  On the example page such a pointer move stores a point whose first coordinate
  is \<^verbatim>\<open>NaN\<close>, and the inference call is made with it.
\<close>

theorem point_coordinates_nan:
  "getPoint collapsed0 = \<lparr>position = (NaN, Num (1/10)), label = 1\<rparr> \<and>
   \<not> point_ok (getPoint collapsed0) \<and>
   lastPoints (run env0 (init_session cv0) (load_image @ [MouseMove collapsed0])) =
     Some [\<lparr>position = (NaN, Num (1/10)), label = 1\<rparr>] \<and>
   tasks (run env0 (init_session cv0) (load_image @ [MouseMove collapsed0])) =
     [T_model \<lparr>call_model = Slimsam, call_embeddings = Some 7,
               input_points = [NaN, Num (512/5)], input_labels = [1], num_points = 1\<rparr>]"
proof -
  have g: "getPoint collapsed0 = \<lparr>position = (NaN, Num (1/10)), label = 1\<rparr>"
    by (simp add: getPoint_def collapsed0_def clamp_def js_div_def js_min_def js_max_def)
  show ?thesis
    by (simp add: run_append ready0_run)
       (simp add: g point_ok_def in_unit_def ready0_def init_session_def handler_defs ip0_def)
qed

section \<open>Export, decode failure and image load\<close>

lemma cut_click_ok:
  assumes "0 < cv_width (maskCanvas st)" "0 < cv_height (maskCanvas st)" "imageInput st = Some img"
  shows "cut_click st =
     spawn (T_upload \<lparr>cv_width = cv_width (maskCanvas st), cv_height = cv_height (maskCanvas st),
                      cv_data = cut_pixels (cv_width (maskCanvas st)) (cv_height (maskCanvas st))
                                  (img_data img) (cv_data (maskCanvas st))\<rparr>)
       (st\<lparr>downloads := downloads st @ [\<lparr>cv_width = cv_width (maskCanvas st), cv_height = cv_height (maskCanvas st),
                      cv_data = cut_pixels (cv_width (maskCanvas st)) (cv_height (maskCanvas st))
                                  (img_data img) (cv_data (maskCanvas st))\<rparr>],
           statusText := Sending_mask,
           uploads := uploads st @ [\<lparr>cv_width = cv_width (maskCanvas st), cv_height = cv_height (maskCanvas st),
                      cv_data = cut_pixels (cv_width (maskCanvas st)) (cv_height (maskCanvas st))
                                  (img_data img) (cv_data (maskCanvas st))\<rparr>]\<rparr>)"
  using assms by (simp add: cut_click_def Let_def)

lemma resume_upload_downloads:
  "resume env st (T_upload blob) r = Some st' \<Longrightarrow>
     downloads st' = downloads st \<and> uploads st' = uploads st"
  by (cases r) (auto simp: cut_after_fetch_def throw_def)

lemma settle_last:
  "settle env (spawn t st) (length (tasks st)) r =
     (case resume env st t r of None \<Rightarrow> spawn t st | Some st' \<Rightarrow> st')"
  by (simp add: settle_def spawn_def split: option.splits)

text \<open>
  C7.  When the cut handler runs on a non-empty canvas with an image loaded, the one blob
  it encodes is handed both to the download link and, as the body of the POST request, to
  the remote sink: the same content.  Whatever the outcome of the upload (rejected,
  unreachable, a response that is not ok), the download made before it is still there
  afterwards; a failed upload only sets the status text.
\<close>

theorem export_dual_sink:
  assumes "0 < cv_width (maskCanvas st)" "0 < cv_height (maskCanvas st)"
      and "imageInput st = Some img"
  shows "downloads (step env st CutClick) = downloads st @ [png_of st img] \<and>
         uploads (step env st CutClick) = uploads st @ [png_of st img] \<and>
         tasks (step env st CutClick) = tasks st @ [T_upload (png_of st img)] \<and>
         downloads (step env (step env st CutClick) (Settle (length (tasks st)) r)) =
           downloads st @ [png_of st img] \<and>
         statusText (step env (step env st CutClick) (Settle (length (tasks st)) Rejected)) =
           Failed_mask \<and>
         statusText (step env (step env st CutClick) (Settle (length (tasks st)) (GotResponse False b))) =
           Failed_mask"
proof -
  let ?b = "png_of st img"
  let ?st1 = "st\<lparr>downloads := downloads st @ [?b], statusText := Sending_mask,
                 uploads := uploads st @ [?b]\<rparr>"
  have c: "cut_click st = spawn (T_upload ?b) ?st1"
    using cut_click_ok [OF assms] by (simp add: png_of_def)
  have l: "length (tasks st) = length (tasks ?st1)" by simp
  have s: "settle env (cut_click st) (length (tasks st)) r =
      (case resume env ?st1 (T_upload ?b) r of None \<Rightarrow> spawn (T_upload ?b) ?st1 | Some st' \<Rightarrow> st')" for r
    unfolding c by (subst l, rule settle_last)
  have d: "downloads (settle env (cut_click st) (length (tasks st)) r) = downloads st @ [?b]"
    unfolding s using resume_upload_downloads [of env ?st1 ?b r]
    by (cases "resume env ?st1 (T_upload ?b) r") (simp_all add: spawn_def)
  show ?thesis
    using d by (simp add: s) (simp add: c spawn_def cut_after_fetch_def)
qed

lemma fill_mask0:
  "fill_mask (img_data mask0) (length [Num (7/10), Num (91/100), Num (91/100)])
      (select_best [Num (7/10), Num (91/100), Num (91/100)]) (blank (img_width mask0) (img_height mask0)) =
     [0, 114, 189, 255, 0, 0, 0, 0]"
  by (simp add: select_best_example)
     (simp add: fill_mask_def fill_step_def fill_pixel_def inside_def typed_get_def blank_def
      mask0_def upt_rec numeral_eq_Suc)

lemma render_mask0:
  "render_overlay mask0 [Num (7/10), Num (91/100), Num (91/100)] =
     \<lparr>cv_width = 1, cv_height = 2, cv_data = [0, 114, 189, 255, 0, 0, 0, 0]\<rparr>"
  unfolding render_overlay_def fill_mask0 by (simp add: mask0_def)

lemma update_mask0:
  "updateMaskOverlay st mask0 [Num (7/10), Num (91/100), Num (91/100)] =
     (st\<lparr>maskCanvas := \<lparr>cv_width = 1, cv_height = 2, cv_data = [0, 114, 189, 255, 0, 0, 0, 0]\<rparr>,
         statusText := Segment_score (Num (91/100))\<rparr>, None)"
proof -
  have "0 < img_width mask0" "0 < img_height mask0" "[Num (7/10), Num (91/100), Num (91/100)] \<noteq> []"
    by (simp_all add: mask0_def)
  from updateMaskOverlay_ok [OF this] show ?thesis
    by (simp add: render_mask0 select_best_example)
qed

lemma click0_button: "button click0 = 0"
  by (simp add: click0_def)

lemma drawn0_run:
  "run env0 ready0 [MouseDown click0, Settle 0 Done, Settle 0 Done] = drawn0"
  by (simp add: drawn0_def ready0_def init_session_def handler_defs getPoint_click0 update_mask0
      click0_button ip0_def env0_def)

lemma drawn0_fields:
  "maskCanvas drawn0 = \<lparr>cv_width = 1, cv_height = 2, cv_data = [0, 114, 189, 255, 0, 0, 0, 0]\<rparr>"
  "imageInput drawn0 = Some img0" "tasks drawn0 = []" "downloads drawn0 = []" "uploads drawn0 = []"
  by (simp_all add: drawn0_def ready0_def init_session_def)

lemma png_drawn0:
  "png_of drawn0 img0 = \<lparr>cv_width = 1, cv_height = 2, cv_data = [10, 20, 30, 255, 0, 0, 0, 0]\<rparr>"
  by (simp add: png_of_def drawn0_fields img0_def cut_pixels_def cut_step_def opaque_def
      typed_get_def copy_channel_def to_byte_def upt_rec)

theorem export_dual_sink_witness:
  "downloads (step env0 (step env0 drawn0 CutClick) (Settle 0 Rejected)) =
     [\<lparr>cv_width = 1, cv_height = 2, cv_data = [10, 20, 30, 255, 0, 0, 0, 0]\<rparr>] \<and>
   uploads (step env0 drawn0 CutClick) =
     [\<lparr>cv_width = 1, cv_height = 2, cv_data = [10, 20, 30, 255, 0, 0, 0, 0]\<rparr>] \<and>
   statusText (step env0 (step env0 drawn0 CutClick) (Settle 0 Rejected)) = Failed_mask"
proof -
  have "0 < cv_width (maskCanvas drawn0)" "0 < cv_height (maskCanvas drawn0)"
       "imageInput drawn0 = Some img0"
    by (simp_all add: drawn0_fields)
  from export_dual_sink [OF this, of env0 Rejected] show ?thesis
    by (simp add: drawn0_fields png_drawn0)
qed

subsection \<open>Decode failure\<close>

lemma settle_decode_rejected:
  assumes "k < length (tasks st)" "is_decode_task (tasks st ! k)"
  shows "settle env st k Rejected =
     throw Rejection (st\<lparr>tasks := take k (tasks st) @ drop (Suc k) (tasks st)\<rparr>)"
  using assms by (cases "tasks st ! k") (simp_all add: settle_def is_decode_task_def)

lemma decode_busy:
  "isDecoding st \<Longrightarrow> decode st = st\<lparr>decodePending := True\<rparr>"
  by (simp add: decode_def)

text \<open>
  The step at which a decode fails: the error leaves \<^verbatim>\<open>decode\<close> uncaught and the call is
  gone; nothing is retried, and the overlay, the status text and both flags of the
  coordinator are as they were.
\<close>

lemma decode_rejected_step:
  assumes "k < length (tasks st)" "is_decode_task (tasks st ! k)"
  shows "isDecoding (step env st (Settle k Rejected)) = isDecoding st \<and>
         decodePending (step env st (Settle k Rejected)) = decodePending st \<and>
         maskCanvas (step env st (Settle k Rejected)) = maskCanvas st \<and>
         statusText (step env st (Settle k Rejected)) = statusText st \<and>
         uncaught (step env st (Settle k Rejected)) = uncaught st @ [Rejection] \<and>
         tasks (step env st (Settle k Rejected)) = take k (tasks st) @ drop (Suc k) (tasks st)"
  using settle_decode_rejected [OF assms] by (simp add: throw_def)

text \<open>
  Once the flag is set with no call of \<^verbatim>\<open>decode\<close> in flight, no event other than a reset
  clears it or starts a call: pointer requests only set \<^verbatim>\<open>decodePending\<close>, a remote frame
  load is refused as busy, and no other handler writes the flag.
\<close>

lemma decode_view_simps [simp]:
  "decode_view (st\<lparr>uncaught := b\<rparr>) = decode_view st"
  "decode_view (st\<lparr>statusText := c\<rparr>) = decode_view st"
  "decode_view (st\<lparr>isEncoding := d\<rparr>) = decode_view st"
  "decode_view (st\<lparr>decodePending := e\<rparr>) = decode_view st"
  "decode_view (st\<lparr>maskCanvas := g\<rparr>) = decode_view st"
  "decode_view (st\<lparr>loadDisabled := h\<rparr>) = decode_view st"
  "decode_view (st\<lparr>imageProcessed := i\<rparr>) = decode_view st"
  "decode_view (st\<lparr>imageInput := k\<rparr>) = decode_view st"
  "decode_view (st\<lparr>imageEmbeddings := k'\<rparr>) = decode_view st"
  "decode_view (st\<lparr>uploadShown := l\<rparr>) = decode_view st"
  "decode_view (st\<lparr>downloads := m\<rparr>) = decode_view st"
  "decode_view (st\<lparr>uploads := n\<rparr>) = decode_view st"
  "decode_view (st\<lparr>model := p\<rparr>) = decode_view st"
  "decode_view (st\<lparr>cutDisabled := q\<rparr>) = decode_view st"
  "decode_view (st\<lparr>lastPoints := r\<rparr>) = decode_view st"
  "decode_view (st\<lparr>isMultiMaskMode := s\<rparr>) = decode_view st"
  "decode_view (st\<lparr>currentModelKey := s'\<rparr>) = decode_view st"
  by (simp_all add: decode_view_def)

lemma decode_view_throw [simp]: "decode_view (throw e st) = decode_view st"
  by (simp add: throw_def)

lemma is_decode_task_simps:
  "is_decode_task (T_model c)" "is_decode_task (T_post out k ip)"
  "\<not> is_decode_task T_frame" "\<not> is_decode_task (T_upload blob)" "\<not> is_decode_task (T_load k)"
  "\<not> is_decode_task (T_fromURL u cl)" "\<not> is_decode_task (T_processor cl)"
  "\<not> is_decode_task (T_embed cl)"
  by (simp_all add: is_decode_task_def)

lemma decode_view_spawn [simp]:
  "\<not> is_decode_task t \<Longrightarrow> decode_view (spawn t st) = decode_view st"
  by (simp add: spawn_def decode_view_def)

lemma decode_stuck_view: "decode_stuck st = (fst (decode_view st) \<and> snd (decode_view st) = [])"
  by (simp add: decode_stuck_def decode_view_def)

lemma decode_stuck_transfer:
  "decode_stuck st \<Longrightarrow> decode_view st' = decode_view st \<Longrightarrow> decode_stuck st'"
  by (simp add: decode_stuck_view)

lemma decode_view_busy: "isDecoding st \<Longrightarrow> decode_view (decode st) = decode_view st"
  by (simp add: decode_def)

lemma decode_view_mousedown: "isDecoding st \<Longrightarrow> decode_view (mousedown st e) = decode_view st"
  by (simp add: mousedown_def decode_def split: option.splits)

lemma decode_view_mousemove: "isDecoding st \<Longrightarrow> decode_view (mousemove st e) = decode_view st"
  by (simp add: mousemove_def decode_def)

lemma decode_view_clear [simp]: "decode_view (clearPointsAndMask st) = decode_view st"
  by (simp add: clearPointsAndMask_def)

lemma decode_view_cut [simp]: "decode_view (cut_click st) = decode_view st"
  by (simp add: cut_click_def Let_def is_decode_task_simps split: option.splits)

lemma decode_view_encode [simp]: "decode_view (encode st u cl) = decode_view st"
  by (simp add: encode_def encode_returned_def is_decode_task_simps split: origin.splits)

lemma decode_view_load: "isDecoding st \<Longrightarrow> decode_view (loadFromAviUtl2 st) = decode_view st"
  by (simp add: loadFromAviUtl2_def)

lemma decode_stuck_resume:
  assumes "decode_stuck st" "k < length (tasks st)"
      and "resume env (st\<lparr>tasks := take k (tasks st) @ drop (Suc k) (tasks st)\<rparr>) (tasks st ! k) r = Some st'"
  shows "decode_stuck st'"
proof -
  let ?st = "st\<lparr>tasks := take k (tasks st) @ drop (Suc k) (tasks st)\<rparr>"
  from assms(1) have n: "\<forall>t\<in>set (tasks st). \<not> is_decode_task t"
    by (simp add: decode_stuck_def filter_empty_conv)
  with assms(2) have k: "\<not> is_decode_task (tasks st ! k)" by simp
  have "set (take k (tasks st) @ drop (Suc k) (tasks st)) \<subseteq> set (tasks st)"
    using set_take_subset [of k "tasks st"] set_drop_subset [of "Suc k" "tasks st"] by auto
  with n have "\<forall>t\<in>set (tasks ?st). \<not> is_decode_task t" by auto
  with assms(1) have b: "decode_stuck ?st"
    by (simp add: decode_stuck_def filter_empty_conv)
  have "decode_view st' = decode_view ?st"
    using assms(3) k
    by (cases "(env, ?st, tasks st ! k, r)" rule: resume.cases)
       (auto simp: is_decode_task_simps encode_after_fromURL_def encode_after_processor_def
          encode_after_embed_def encode_threw_def encode_returned_def load_after_fetch_def
          cut_after_fetch_def split: origin.splits)
  with b show ?thesis by (rule decode_stuck_transfer)
qed

lemma decode_stuck_step:
  assumes "decode_stuck st" "\<not> resets ev"
  shows "decode_stuck (step env st ev)"
proof (cases ev)
  case (Settle k r)
  show ?thesis
  proof (cases "k < length (tasks st)")
    case False
    with Settle assms(1) show ?thesis by (simp add: settle_def)
  next
    case True
    show ?thesis
    proof (cases "resume env (st\<lparr>tasks := take k (tasks st) @ drop (Suc k) (tasks st)\<rparr>) (tasks st ! k) r")
      case None
      with True Settle assms(1) show ?thesis by (simp add: settle_def)
    next
      case (Some st')
      from decode_stuck_resume [OF assms(1) True Some] True Some Settle show ?thesis
        by (simp add: settle_def)
    qed
  qed
next
  case (MouseDown e)
  from assms(1) have "isDecoding st" by (simp add: decode_stuck_def)
  from decode_stuck_transfer [OF assms(1) decode_view_mousedown [OF this, of e]] show ?thesis
    by (simp add: MouseDown)
next
  case (MouseMove e)
  from assms(1) have "isDecoding st" by (simp add: decode_stuck_def)
  from decode_stuck_transfer [OF assms(1) decode_view_mousemove [OF this, of e]] show ?thesis
    by (simp add: MouseMove)
next
  case LoadFromAviUtl2Click
  from assms(1) have "isDecoding st" by (simp add: decode_stuck_def)
  from decode_stuck_transfer [OF assms(1) decode_view_load [OF this]] show ?thesis
    by (simp add: LoadFromAviUtl2Click)
qed (use assms in \<open>auto intro: decode_stuck_transfer\<close>)

lemma decode_stuck_run:
  assumes "decode_stuck st" "\<forall>ev\<in>set evs. \<not> resets ev"
  shows "decode_stuck (run env st evs)"
  using assms
proof (induction evs arbitrary: st)
  case Nil
  then show ?case by simp
next
  case (Cons ev evs)
  from decode_stuck_step [OF Cons.prems(1), of ev env] Cons.prems(2)
  have "decode_stuck (step env st ev)" by simp
  from Cons.IH [OF this] Cons.prems(2) show ?case by simp
qed

lemmas example_defs = ready0_def init_session_def click0_button ip0_def env0_def getPoint_click0

text \<open>
  On the example page, once the inference call of a click has been rejected, the flag
  stays set and no call of \<^verbatim>\<open>decode\<close> is made, whatever events follow, as long as the
  session is not reset.
\<close>

lemma decode_failure_permanent:
  assumes "\<forall>ev\<in>set evs. \<not> resets ev"
  shows "decode_stuck (run env0 (init_session cv0)
           (load_image @ [MouseDown click0, Settle 0 Rejected] @ evs))"
proof -
  have "decode_stuck (run env0 (init_session cv0)
          (load_image @ [MouseDown click0, Settle 0 Rejected]))"
    by (simp add: run_append ready0_run) (simp add: decode_stuck_def handler_defs example_defs)
  from decode_stuck_run [OF this assms, of env0] show ?thesis
    by (simp only: run_append append_assoc [symmetric])
qed

text \<open>
  C2.  The claim requires a failed decode to release the busy flag, so that later
  requests are served.  \<^verbatim>\<open>decode\<close> does not release it.  Its guard (``only proceed if we
  are not already decoding'') relies on \<^verbatim>\<open>isDecoding\<close> being cleared when a decode ends,
  but the assignment that clears it stands after the two awaits and is skipped when
  either of them rejects.  On the example page, after a click whose inference call is
  rejected the flag is still set, no call is in flight and the error is uncaught; the
  clicks that follow start no call and only set \<^verbatim>\<open>decodePending\<close>.  The same holds when
  the post-processing is rejected, whereas after a decode that succeeds the next click
  starts a call.
\<close>

theorem decode_failure_lockout:
  "isDecoding (run env0 (init_session cv0) (load_image @ [MouseDown click0, Settle 0 Rejected])) \<and>
   tasks (run env0 (init_session cv0) (load_image @ [MouseDown click0, Settle 0 Rejected])) = [] \<and>
   uncaught (run env0 (init_session cv0) (load_image @ [MouseDown click0, Settle 0 Rejected])) =
     [Rejection] \<and>
   tasks (run env0 (init_session cv0)
      (load_image @ [MouseDown click0, Settle 0 Rejected, MouseDown click0, MouseDown click0])) = [] \<and>
   decodePending (run env0 (init_session cv0)
      (load_image @ [MouseDown click0, Settle 0 Rejected, MouseDown click0])) \<and>
   isDecoding (run env0 (init_session cv0)
      (load_image @ [MouseDown click0, Settle 0 Done, Settle 0 Rejected])) \<and>
   tasks (run env0 (init_session cv0)
      (load_image @ [MouseDown click0, Settle 0 Done, Settle 0 Rejected, MouseDown click0])) = [] \<and>
   length (tasks (run env0 (init_session cv0)
      (load_image @ [MouseDown click0, Settle 0 Done, Settle 0 Done, MouseDown click0]))) = 1"
  by (simp add: run_append ready0_run) (simp add: handler_defs example_defs update_mask0)

subsection \<open>Image load\<close>




lemma resume_encode_task:
  assumes "is_encode_task t" "resume env st t r = Some st'"
  shows "overlay_session st' = overlay_session st"
    and "r = Rejected \<Longrightarrow> imageEmbeddings st' = imageEmbeddings st \<and> isEncoding st' = isEncoding st"
  using assms
  by (cases "(env, st, t, r)" rule: resume.cases;
      auto simp: is_encode_task_def overlay_session_def encode_after_fromURL_def
        encode_after_processor_def encode_after_embed_def encode_threw_def encode_returned_def
        spawn_def throw_def split: origin.splits)+

lemma settle_encode_task:
  assumes "k < length (tasks st)" "is_encode_task (tasks st ! k)"
  shows "overlay_session (settle env st k r) = overlay_session st"
    and "imageEmbeddings (settle env st k Rejected) = imageEmbeddings st"
    and "isEncoding (settle env st k Rejected) = isEncoding st"
proof -
  let ?st = "st\<lparr>tasks := take k (tasks st) @ drop (Suc k) (tasks st)\<rparr>"
  have o: "overlay_session ?st = overlay_session st" by (simp add: overlay_session_def)
  show "overlay_session (settle env st k r) = overlay_session st"
    using assms resume_encode_task(1) [OF assms(2), of env ?st r] o
    by (cases "resume env ?st (tasks st ! k) r") (simp_all add: settle_def)
  show "imageEmbeddings (settle env st k Rejected) = imageEmbeddings st"
    using assms resume_encode_task(2) [OF assms(2), of env ?st Rejected]
    by (cases "resume env ?st (tasks st ! k) Rejected") (simp_all add: settle_def)
  show "isEncoding (settle env st k Rejected) = isEncoding st"
    using assms resume_encode_task(2) [OF assms(2), of env ?st Rejected]
    by (cases "resume env ?st (tasks st ! k) Rejected") (simp_all add: settle_def)
qed

lemma settle_embed_ok:
  assumes "k < length (tasks st)" "tasks st ! k = T_embed cl"
  shows "imageEmbeddings (settle env st k (GotEmbedding emb)) = Some emb"
    and "\<not> isEncoding (settle env st k (GotEmbedding emb))"
  using assms
  by (simp_all add: settle_def encode_after_embed_def encode_returned_def split: origin.splits)

lemma overlapping_run:
  "run env0 (init_session cv0) overlapping_loads =
     drawn0\<lparr>tasks := [T_fromURL (DataURL 1) Direct]\<rparr>"
  by (simp add: overlapping_loads_def drawn0_def handler_defs example_defs update_mask0)




lemma load_view_simps [simp]:
  "load_view (st\<lparr>uncaught := b\<rparr>) = load_view st"
  "load_view (st\<lparr>statusText := c\<rparr>) = load_view st"
  "load_view (st\<lparr>isDecoding := d\<rparr>) = load_view st"
  "load_view (st\<lparr>decodePending := e\<rparr>) = load_view st"
  "load_view (st\<lparr>maskCanvas := g\<rparr>) = load_view st"
  "load_view (st\<lparr>loadDisabled := h\<rparr>) = load_view st"
  "load_view (st\<lparr>imageProcessed := i\<rparr>) = load_view st"
  "load_view (st\<lparr>imageInput := k\<rparr>) = load_view st"
  "load_view (st\<lparr>imageEmbeddings := k'\<rparr>) = load_view st"
  "load_view (st\<lparr>uploadShown := l\<rparr>) = load_view st"
  "load_view (st\<lparr>downloads := m\<rparr>) = load_view st"
  "load_view (st\<lparr>uploads := n\<rparr>) = load_view st"
  "load_view (st\<lparr>model := p\<rparr>) = load_view st"
  "load_view (st\<lparr>cutDisabled := q\<rparr>) = load_view st"
  "load_view (st\<lparr>lastPoints := r\<rparr>) = load_view st"
  "load_view (st\<lparr>isMultiMaskMode := s\<rparr>) = load_view st"
  "load_view (st\<lparr>currentModelKey := s'\<rparr>) = load_view st"
  by (simp_all add: load_view_def)

lemma load_view_throw [simp]: "load_view (throw e st) = load_view st"
  by (simp add: throw_def)

lemma load_view_spawn [simp]:
  "\<not> is_encode_task t \<Longrightarrow> load_view (spawn t st) = load_view st"
  by (simp add: spawn_def load_view_def)

lemma is_encode_task_simps:
  "\<not> is_encode_task (T_model c)" "\<not> is_encode_task (T_post out k ip)"
  "\<not> is_encode_task T_frame" "\<not> is_encode_task (T_upload blob)" "\<not> is_encode_task (T_load k)"
  "is_encode_task (T_fromURL u cl)" "is_encode_task (T_processor cl)" "is_encode_task (T_embed cl)"
  by (simp_all add: is_encode_task_def)

lemma load_view_decode [simp]: "load_view (decode st) = load_view st"
  by (simp add: decode_def Let_def is_encode_task_simps split: option.splits)

lemma load_view_update:
  "load_view (fst (updateMaskOverlay st m scores)) = load_view st"
  by (simp add: updateMaskOverlay_def Let_def split: option.splits)

lemma load_view_after_post [simp]:
  "load_view (decode_after_post env st out k ip) = load_view st"
proof -
  obtain st2 e where u: "updateMaskOverlay (st\<lparr>isDecoding := False\<rparr>)
      (post_process_masks env k (pred_masks out) ip) (iou_scores out) = (st2, e)"
    by (cases "updateMaskOverlay (st\<lparr>isDecoding := False\<rparr>)
      (post_process_masks env k (pred_masks out) ip) (iou_scores out)")
  from load_view_update [of "st\<lparr>isDecoding := False\<rparr>"
      "post_process_masks env k (pred_masks out) ip" "iou_scores out"] u
  have "load_view st2 = load_view st" by simp
  then show ?thesis
    by (simp add: decode_after_post_def Let_def u split: option.splits)
qed

lemma load_view_after_model [simp]:
  "load_view (decode_after_model env st c) = load_view st"
  by (simp add: decode_after_model_def is_encode_task_simps split: option.splits)

lemma load_view_mousedown [simp]: "load_view (mousedown st e) = load_view st"
  by (simp add: mousedown_def Let_def split: option.splits)

lemma load_view_mousemove [simp]: "load_view (mousemove st e) = load_view st"
  by (simp add: mousemove_def)

lemma load_view_cut [simp]: "load_view (cut_click st) = load_view st"
  by (simp add: cut_click_def Let_def is_encode_task_simps split: option.splits)

lemma load_view_clear [simp]: "load_view (clearPointsAndMask st) = load_view st"
  by (simp add: clearPointsAndMask_def)

lemma load_inv_view: "load_inv st = (length (snd (load_view st)) \<le> (if fst (load_view st) then 1 else 0))"
  by (simp add: load_inv_def loads_in_flight_def load_view_def)

lemma load_inv_transfer: "load_inv st \<Longrightarrow> load_view st' = load_view st \<Longrightarrow> load_inv st'"
  by (simp add: load_inv_view)

lemma load_inv_encode: "load_inv st \<Longrightarrow> load_inv (encode st u cl)"
  by (auto simp: load_inv_def loads_in_flight_def encode_def encode_returned_def spawn_def
      is_encode_task_simps split: origin.splits if_splits)

lemma load_inv_loadFromAviUtl2: "load_inv st \<Longrightarrow> load_inv (loadFromAviUtl2 st)"
  by (auto simp: load_inv_def loads_in_flight_def loadFromAviUtl2_def resetImageState_def
      clearPointsAndMask_def spawn_def is_encode_task_simps split: if_splits)

lemma filter_remove_nth:
  assumes "k < length xs"
  shows "length (filter P (take k xs @ drop (Suc k) xs)) =
         length (filter P xs) - (if P (xs ! k) then 1 else 0)"
proof -
  have "xs = take k xs @ xs ! k # drop (Suc k) xs"
    using assms by (simp add: id_take_nth_drop)
  then have "length (filter P xs) =
      length (filter P (take k xs @ xs ! k # drop (Suc k) xs))" by simp
  then show ?thesis by simp
qed

lemma load_inv_remove:
  assumes "load_inv st" "k < length (tasks st)"
  shows "loads_in_flight (st\<lparr>tasks := take k (tasks st) @ drop (Suc k) (tasks st)\<rparr>) =
           loads_in_flight st - (if is_encode_task (tasks st ! k) then 1 else 0)"
    and "is_encode_task (tasks st ! k) \<Longrightarrow> isEncoding st \<and> loads_in_flight st = 1"
proof -
  show "loads_in_flight (st\<lparr>tasks := take k (tasks st) @ drop (Suc k) (tasks st)\<rparr>) =
           loads_in_flight st - (if is_encode_task (tasks st ! k) then 1 else 0)"
    using filter_remove_nth [OF assms(2), of is_encode_task] by (simp add: loads_in_flight_def)
  assume e: "is_encode_task (tasks st ! k)"
  from assms(2) have "tasks st ! k \<in> set (tasks st)" by simp
  with e have "tasks st ! k \<in> set (filter is_encode_task (tasks st))" by simp
  then have "0 < loads_in_flight st"
    unfolding loads_in_flight_def by (simp only: length_pos_if_in_set)
  with assms(1) show "isEncoding st \<and> loads_in_flight st = 1"
    by (cases "isEncoding st") (simp_all add: load_inv_def)
qed

lemma load_inv_resume:
  assumes "load_inv st" "k < length (tasks st)"
      and "resume env (st\<lparr>tasks := take k (tasks st) @ drop (Suc k) (tasks st)\<rparr>) (tasks st ! k) r = Some st'"
  shows "load_inv st'"
proof -
  let ?st = "st\<lparr>tasks := take k (tasks st) @ drop (Suc k) (tasks st)\<rparr>"
  note rm = load_inv_remove [OF assms(1,2)]
  note is_encode_task_simps [simp]
  have base: "\<not> is_encode_task (tasks st ! k) \<Longrightarrow> load_inv ?st"
    using rm(1) assms(1) by (simp add: load_inv_def)
  have enc: "is_encode_task (tasks st ! k) \<Longrightarrow> isEncoding ?st \<and> loads_in_flight ?st = 0"
    using rm by simp
  show ?thesis
  proof (cases "tasks st ! k")
    case (T_model c)
    with assms(3) base show ?thesis
      by (cases r) (auto intro: load_inv_transfer)
  next
    case (T_post out km ip)
    with assms(3) base show ?thesis
      by (cases r) (auto intro: load_inv_transfer)
  next
    case (T_fromURL u cl)
    with assms(3) enc show ?thesis
      by (cases r)
         (auto simp: load_inv_def loads_in_flight_def encode_after_fromURL_def encode_threw_def
            spawn_def throw_def split: origin.splits)
  next
    case (T_processor cl)
    with assms(3) enc show ?thesis
      by (cases r)
         (auto simp: load_inv_def loads_in_flight_def encode_after_processor_def encode_threw_def
            spawn_def throw_def split: origin.splits)
  next
    case (T_embed cl)
    with assms(3) enc show ?thesis
      by (cases r)
         (auto simp: load_inv_def loads_in_flight_def encode_after_embed_def encode_threw_def
            encode_returned_def spawn_def throw_def split: origin.splits)
  next
    case T_frame
    with base have b: "load_inv ?st" by simp
    have f: "load_inv (?st\<lparr>statusText := Failed_frame, loadDisabled := False\<rparr>)"
      by (rule load_inv_transfer [OF b]) simp
    from T_frame assms(3) f load_inv_encode [OF b] show ?thesis
      by (cases r) (auto simp: load_after_fetch_def split: if_splits)
  next
    case (T_upload blob)
    with assms(3) base show ?thesis
      by (cases r) (auto simp: cut_after_fetch_def intro: load_inv_transfer)
  next
    case (T_load km)
    with assms(3) base show ?thesis
      by (cases r) (auto intro: load_inv_transfer)
  qed
qed

lemma load_inv_step:
  assumes "load_inv st" "\<not> resets ev"
  shows "load_inv (step env st ev)"
proof (cases ev)
  case (Settle k r)
  show ?thesis
  proof (cases "k < length (tasks st)")
    case False
    with Settle assms(1) show ?thesis by (simp add: settle_def)
  next
    case True
    show ?thesis
    proof (cases "resume env (st\<lparr>tasks := take k (tasks st) @ drop (Suc k) (tasks st)\<rparr>) (tasks st ! k) r")
      case None
      with True Settle assms(1) show ?thesis by (simp add: settle_def)
    next
      case (Some st')
      from load_inv_resume [OF assms(1) True Some] True Some Settle show ?thesis
        by (simp add: settle_def)
    qed
  qed
qed (use assms in \<open>auto simp: load_inv_encode load_inv_loadFromAviUtl2 intro: load_inv_transfer\<close>)


lemma load_inv_run:
  assumes "load_inv st" "\<forall>ev\<in>set evs. \<not> resets ev"
  shows "load_inv (run env st evs)"
  using assms
proof (induction evs arbitrary: st)
  case Nil
  then show ?case by (simp add: run_def)
next
  case (Cons ev evs)
  from load_inv_step [OF Cons.prems(1), of ev env] Cons.prems(2)
  have "load_inv (step env st ev)" by simp
  from Cons.IH [OF this] Cons.prems(2) show ?case by (simp add: run_def)
qed

lemma load_inv_init: "load_inv (init_session cv)"
  by (simp add: load_inv_def loads_in_flight_def init_session_def)

lemma one_load_in_flight:
  assumes "\<forall>ev\<in>set evs. \<not> resets ev"
  shows "loads_in_flight (run env (init_session cv) evs) \<le> 1"
  using load_inv_run [OF load_inv_init assms, of env cv]
  by (simp add: load_inv_def split: if_splits)

text \<open>
  The embedding slot is written by the last stage of a load and cleared by a reset; no
  other step touches it.
\<close>

lemma no_embedding_decode [simp]: "imageEmbeddings (decode st) = imageEmbeddings st"
  by (simp add: decode_def Let_def spawn_def throw_def split: option.splits)

lemma no_embedding_update:
  "imageEmbeddings (fst (updateMaskOverlay st m scores)) = imageEmbeddings st"
  by (simp add: updateMaskOverlay_def Let_def throw_def split: option.splits)

lemma no_embedding_after_post [simp]:
  "imageEmbeddings (decode_after_post env st out k ip) = imageEmbeddings st"
proof -
  obtain st2 e where u: "updateMaskOverlay (st\<lparr>isDecoding := False\<rparr>)
      (post_process_masks env k (pred_masks out) ip) (iou_scores out) = (st2, e)"
    by (cases "updateMaskOverlay (st\<lparr>isDecoding := False\<rparr>)
      (post_process_masks env k (pred_masks out) ip) (iou_scores out)")
  from no_embedding_update [of "st\<lparr>isDecoding := False\<rparr>"
      "post_process_masks env k (pred_masks out) ip" "iou_scores out"] u
  have "imageEmbeddings st2 = imageEmbeddings st" by simp
  then show ?thesis
    by (simp add: decode_after_post_def Let_def u throw_def split: option.splits)
qed

lemma no_embedding_resume:
  assumes "resume env st t r = Some st'" "imageEmbeddings st = None" "\<not> embed_success (Settle k r)"
  shows "imageEmbeddings st' = None"
  using assms
  by (cases "(env, st, t, r)" rule: resume.cases)
     (auto simp: encode_after_fromURL_def encode_after_processor_def encode_threw_def
        load_after_fetch_def cut_after_fetch_def decode_after_model_def encode_def encode_returned_def
        spawn_def throw_def split: origin.splits option.splits)

lemma no_embedding_step:
  assumes "imageEmbeddings st = None" "\<not> embed_success ev"
  shows "imageEmbeddings (step env st ev) = None"
proof (cases ev)
  case (Settle k r)
  show ?thesis
  proof (cases "k < length (tasks st)")
    case False
    with Settle assms(1) show ?thesis by (simp add: settle_def)
  next
    case True
    show ?thesis
    proof (cases "resume env (st\<lparr>tasks := take k (tasks st) @ drop (Suc k) (tasks st)\<rparr>) (tasks st ! k) r")
      case None
      with True Settle assms(1) show ?thesis by (simp add: settle_def)
    next
      case (Some st')
      from no_embedding_resume [OF Some, of k] assms Settle have "imageEmbeddings st' = None"
        by simp
      with True Some Settle show ?thesis by (simp add: settle_def)
    qed
  qed
qed (use assms in \<open>simp_all add: mousedown_def mousemove_def clearPointsAndMask_def
      resetImageState_def encode_def encode_returned_def loadFromAviUtl2_def model_select_change_def
      cut_click_def spawn_def throw_def Let_def split: option.splits\<close>)

lemma no_embedding_run:
  assumes "imageEmbeddings st = None" "\<forall>ev\<in>set evs. \<not> embed_success ev"
  shows "imageEmbeddings (run env st evs) = None"
  using assms
proof (induction evs arbitrary: st)
  case Nil
  then show ?case by (simp add: run_def)
next
  case (Cons ev evs)
  from no_embedding_step [OF Cons.prems(1), of ev env] Cons.prems(2)
  have "imageEmbeddings (step env st ev) = None" by simp
  from Cons.IH [OF this] Cons.prems(2) show ?case by (simp add: run_def)
qed

text \<open>
  C8 (as amended).  \<^verbatim>\<open>encode\<close> is guarded by a busy flag.  A call while the flag is set
  starts nothing and leaves the embedding alone; from the upload and example handlers it
  changes nothing at all.  A call while the flag is clear sets it and starts one load.
  From the initial page, as long as the session is not reset (Reset button, model
  change), at most one load is in flight; a reset clears the flag without cancelling the
  load in flight, so loads can overlap across it.  When the last stage of a load succeeds
  the embedding is replaced, whatever it was.  A failing stage does not touch the
  embedding: a session that has none when a stage fails has none afterwards, and a
  session without an embedding gets one only by the successful completion of a load;
  until then clicks and pointer moves are ignored (no decode is made).  An embedding that
  is present when a stage fails, left by an overlapping load, stays.
\<close>

theorem embedding_failure:
  "(isEncoding st \<longrightarrow>
      step env st (FileLoaded n) = st \<and> step env st ExampleClick = st \<and>
      tasks (encode st u cl) = tasks st \<and> imageEmbeddings (encode st u cl) = imageEmbeddings st) \<and>
   (\<not> isEncoding st \<longrightarrow>
      isEncoding (encode st u cl) \<and> tasks (encode st u cl) = tasks st @ [T_fromURL u cl]) \<and>
   ((\<forall>ev\<in>set evs. \<not> resets ev) \<longrightarrow> loads_in_flight (run env (init_session cv) evs) \<le> 1) \<and>
   \<not> isEncoding (step env st ResetClick) \<and> tasks (step env st ResetClick) = tasks st \<and>
   (k < length (tasks st) \<and> tasks st ! k = T_embed cl \<longrightarrow>
      imageEmbeddings (step env st (Settle k (GotEmbedding emb))) = Some emb) \<and>
   (k < length (tasks st) \<and> is_encode_task (tasks st ! k) \<longrightarrow>
      imageEmbeddings (step env st (Settle k Rejected)) = imageEmbeddings st) \<and>
   (imageEmbeddings st = None \<and> (\<forall>ev\<in>set evs'. \<not> embed_success ev) \<longrightarrow>
      imageEmbeddings (run env st evs') = None) \<and>
   (imageEmbeddings st = None \<longrightarrow> step env st (MouseDown e) = st \<and> step env st (MouseMove e) = st)"
  using settle_encode_task(2) [of k st env] settle_embed_ok(1) [of k st cl env emb]
    one_load_in_flight [of evs env cv] no_embedding_run [of st evs' env]
  by (simp add: encode_def encode_returned_def spawn_def mousedown_def mousedown_ignored_def
      mousemove_def mousemove_ignored_def resetImageState_def clearPointsAndMask_def
      split: origin.splits)

theorem embedding_failure_witness:
  "step env0 (step env0 (init_session cv0) ExampleClick) (FileLoaded 1) =
     step env0 (init_session cv0) ExampleClick \<and>
   tasks (encode (init_session cv0) ExampleURL Direct) = [T_fromURL ExampleURL Direct] \<and>
   loads_in_flight (run env0 (init_session cv0)
      [ExampleClick, FileLoaded 1, Settle 0 (GotImage img0), ExampleClick]) \<le> 1 \<and>
   imageEmbeddings (step env0 (init_session cv0\<lparr>tasks := [T_embed Direct]\<rparr>)
      (Settle 0 (GotEmbedding 8))) = Some 8 \<and>
   imageEmbeddings (step env0 (step env0 (init_session cv0) ExampleClick) (Settle 0 Rejected)) = None \<and>
   imageEmbeddings (run env0 (init_session cv0)
      [ExampleClick, Settle 0 Rejected, ExampleClick, MouseDown click0]) = None \<and>
   step env0 (step env0 (step env0 (init_session cv0) ExampleClick) (Settle 0 Rejected))
     (MouseDown click0) =
   step env0 (step env0 (init_session cv0) ExampleClick) (Settle 0 Rejected)"
proof -
  let ?st = "step env0 (init_session cv0) ExampleClick"
  let ?evs = "[ExampleClick, FileLoaded 1, Settle 0 (GotImage img0), ExampleClick]"
  let ?evs' = "[ExampleClick, Settle 0 Rejected, ExampleClick, MouseDown click0]"
  have i: "isEncoding ?st" "\<not> isEncoding (init_session cv0)"
    and t: "0 < length (tasks ?st) \<and> is_encode_task (tasks ?st ! 0)"
    and e: "imageEmbeddings ?st = None" "imageEmbeddings (init_session cv0) = None"
    and b: "0 < length (tasks (init_session cv0\<lparr>tasks := [T_embed Direct]\<rparr>)) \<and>
            tasks (init_session cv0\<lparr>tasks := [T_embed Direct]\<rparr>) ! 0 = T_embed Direct"
    and r: "\<forall>ev\<in>set ?evs. \<not> resets ev" and q: "\<forall>ev\<in>set ?evs'. \<not> embed_success ev"
    by (simp_all add: init_session_def encode_def spawn_def is_encode_task_def)
  have a1: "step env0 ?st (FileLoaded 1) = ?st"
    using embedding_failure [where st = ?st and env = env0 and n = 1] i by blast
  have a2: "tasks (encode (init_session cv0) ExampleURL Direct) = [T_fromURL ExampleURL Direct]"
    using embedding_failure [where st = "init_session cv0" and u = ExampleURL and cl = Direct] i
    by (simp add: init_session_def)
  have a3: "loads_in_flight (run env0 (init_session cv0) ?evs) \<le> 1"
    using embedding_failure [where evs = ?evs and env = env0 and cv = cv0] r by blast
  have a4: "imageEmbeddings (step env0 (init_session cv0\<lparr>tasks := [T_embed Direct]\<rparr>)
      (Settle 0 (GotEmbedding 8))) = Some 8"
    using embedding_failure [where st = "init_session cv0\<lparr>tasks := [T_embed Direct]\<rparr>" and env = env0
        and cl = Direct and k = 0 and emb = 8] b
    by blast
  have a5: "imageEmbeddings (step env0 ?st (Settle 0 Rejected)) = None"
    using embedding_failure [where st = ?st and env = env0 and k = 0] t e by simp
  have a6: "imageEmbeddings (run env0 (init_session cv0) ?evs') = None"
    using embedding_failure [where st = "init_session cv0" and env = env0 and evs' = ?evs'] e q by blast
  have a7: "step env0 (step env0 ?st (Settle 0 Rejected)) (MouseDown click0) =
      step env0 ?st (Settle 0 Rejected)"
    using embedding_failure [where st = "step env0 ?st (Settle 0 Rejected)" and env = env0 and e = click0] a5
    by blast
  from a1 a2 a3 a4 a5 a6 a7 show ?thesis by blast
qed

text \<open>
  The claim C8 as stated fails when loads overlap across a reset.  The example image is
  requested and the session is reset while it loads: the upload button is shown again
  and there is no embedding.  A file is then chosen: two loads are in flight.  The first
  load completes and a point is decoded; when the second load then fails, the session
  holds the embedding of the first image, no load is in flight, and the next click starts
  a decode.
\<close>

theorem embedding_failure_counterexample:
  "uploadShown (run env0 (init_session cv0) [ExampleClick, ResetClick]) \<and>
   imageEmbeddings (run env0 (init_session cv0) [ExampleClick, ResetClick]) = None \<and>
   loads_in_flight (run env0 (init_session cv0) [ExampleClick, ResetClick, FileLoaded 1]) = 2 \<and>
   imageEmbeddings (run env0 (init_session cv0) (overlapping_loads @ [Settle 0 Rejected])) =
     Some 7 \<and>
   tasks (run env0 (init_session cv0) (overlapping_loads @ [Settle 0 Rejected])) = [] \<and>
   length (tasks (run env0 (init_session cv0)
       (overlapping_loads @ [Settle 0 Rejected, MouseDown click0]))) = 1"
  by (simp add: run_append overlapping_run)
     (simp add: drawn0_def handler_defs example_defs loads_in_flight_def is_encode_task_def)

section \<open>Single-flight decoding\<close>

lemma shape_cases:
  assumes "shape env st"
  obtains (idle) "tasks st = []" "\<not> isDecoding st" "\<not> decodePending st"
  | (model) c where "tasks st = [T_model c]" "isDecoding st" "lastPoints st \<noteq> None"
  | (post) c ip where "tasks st = [T_post (run_model env c) (model st) ip]" "isDecoding st"
      "lastPoints st \<noteq> None" "imageProcessed st = Some ip"
proof -
  from assms have "shape_ok env st (tasks st)" by (simp add: shape_def)
  then show ?thesis
    by (cases "(env, st, tasks st)" rule: shape_ok.cases) (auto intro: idle model post)
qed

lemma make_call_Some:
  assumes "proc_ok st" "lastPoints st \<noteq> None"
  obtains c where "make_call st = Some c"
  using assms
  by (auto simp: proc_ok_def make_call_def scale_points_def typed_get_def split: option.splits)

lemma decode_idle:
  "\<not> isDecoding st \<Longrightarrow> make_call st = Some c \<Longrightarrow>
     decode st = st\<lparr>isDecoding := True, tasks := tasks st @ [T_model c]\<rparr>"
  by (simp add: decode_def spawn_def)

lemma shape_decode:
  assumes "shape env st" "lastPoints st \<noteq> None"
  shows "shape env (decode st) \<and> fresh env (decode st) \<and> tasks (decode st) \<noteq> []"
  using assms(1)
proof (cases rule: shape_cases)
  case idle
  from assms obtain c where c: "make_call st = Some c"
    by (auto simp: shape_def elim: make_call_Some)
  show ?thesis
    using assms idle c
    by (simp add: decode_idle [OF idle(2) c] shape_def fresh_def proc_ok_def)
next
  case (model c)
  then show ?thesis using assms
    by (simp add: decode_busy shape_def fresh_def proc_ok_def)
next
  case (post c ip)
  then show ?thesis using assms
    by (auto simp: decode_busy shape_def fresh_def proc_ok_def)
qed

lemma shape_points_update:
  assumes "shape env st"
  shows "shape env (st\<lparr>lastPoints := Some pts\<rparr>)"
    and "shape env (st\<lparr>isMultiMaskMode := True, cutDisabled := False, lastPoints := Some pts\<rparr>)"
  using assms(1)
  by (cases rule: shape_cases; use assms in \<open>simp add: shape_def proc_ok_def\<close>)+

lemma mousedown_request:
  assumes "shape env st" "\<not> mousedown_ignored st e"
  obtains pts where "mousedown st e = decode (st\<lparr>lastPoints := Some pts\<rparr>)" "isMultiMaskMode st"
  | pts where "mousedown st e =
       decode (st\<lparr>isMultiMaskMode := True, cutDisabled := False, lastPoints := Some pts\<rparr>)"
      "\<not> isMultiMaskMode st"
proof (cases "isMultiMaskMode st")
  case True
  with assms obtain ps where "lastPoints st = Some ps" by (auto simp: shape_def)
  with True assms(2) have "mousedown st e = decode (st\<lparr>lastPoints := Some (ps @ [getPoint e])\<rparr>)"
    by (simp add: mousedown_def)
  with True that(1) show ?thesis by blast
next
  case False
  with assms(2) have "mousedown st e =
     decode (st\<lparr>isMultiMaskMode := True, cutDisabled := False, lastPoints := Some [getPoint e]\<rparr>)"
    by (simp add: mousedown_def)
  with False that(2) show ?thesis by blast
qed

lemma mousedown_inv:
  assumes "shape env st" "\<not> mousedown_ignored st e"
  shows "shape env (mousedown st e) \<and> fresh env (mousedown st e) \<and> tasks (mousedown st e) \<noteq> []"
  using assms
proof (cases rule: mousedown_request)
  case (1 pts)
  show ?thesis unfolding 1(1)
    by (rule shape_decode) (simp_all add: shape_points_update [OF assms(1)])
next
  case (2 pts)
  show ?thesis unfolding 2(1)
    by (rule shape_decode) (simp_all add: shape_points_update [OF assms(1)])
qed

lemma mousemove_inv:
  assumes "shape env st" "\<not> mousemove_ignored st"
  shows "shape env (mousemove st e) \<and> fresh env (mousemove st e) \<and> tasks (mousemove st e) \<noteq> []"
proof -
  have "mousemove st e = decode (st\<lparr>lastPoints := Some [getPoint e]\<rparr>)"
    using assms(2) by (simp add: mousemove_def)
  then show ?thesis
    using shape_decode [of env "st\<lparr>lastPoints := Some [getPoint e]\<rparr>"]
      shape_points_update(1) [OF assms(1), of "[getPoint e]"]
    by simp
qed

lemma settle_idle: "tasks st = [] \<Longrightarrow> settle env st k r = st"
  by (simp add: settle_def)

lemma settle_beyond: "length (tasks st) \<le> k \<Longrightarrow> settle env st k r = st"
  by (simp add: settle_def)

lemma settle_model_step:
  "tasks st = [T_model c] \<Longrightarrow> imageProcessed st = Some ip \<Longrightarrow>
     settle env st 0 Done = st\<lparr>tasks := [T_post (run_model env c) (model st) ip]\<rparr>"
  by (simp add: settle_def decode_after_model_def spawn_def)

lemma settle_post_step:
  assumes "tasks st = [T_post out k ip]" "wf_env env" "out = run_model env c"
  shows "settle env st 0 Done =
     (if decodePending st
      then decode (st\<lparr>tasks := [], isDecoding := False,
                      maskCanvas := render_overlay (post_process_masks env k (pred_masks out) ip) (iou_scores out),
                      statusText := Segment_score (iou_scores out ! select_best (iou_scores out)),
                      decodePending := False\<rparr>)
      else st\<lparr>tasks := [], isDecoding := False,
              maskCanvas := render_overlay (post_process_masks env k (pred_masks out) ip) (iou_scores out),
              statusText := Segment_score (iou_scores out ! select_best (iou_scores out))\<rparr>)"
proof -
  have "0 < img_width (post_process_masks env k (pred_masks out) ip)"
       "0 < img_height (post_process_masks env k (pred_masks out) ip)"
       "iou_scores out \<noteq> []"
    using assms(2,3) by (simp_all add: wf_env_def)
  note u = updateMaskOverlay_ok [OF this]
  show ?thesis
    using assms(1) by (simp add: settle_def decode_after_post_def u)
qed

lemma points_overlay_simps [simp]:
  "points_overlay env (st\<lparr>tasks := a\<rparr>) = points_overlay env st"
  "points_overlay env (st\<lparr>statusText := b\<rparr>) = points_overlay env st"
  "points_overlay env (st\<lparr>isDecoding := d\<rparr>) = points_overlay env st"
  "points_overlay env (st\<lparr>decodePending := e\<rparr>) = points_overlay env st"
  "points_overlay env (st\<lparr>maskCanvas := g\<rparr>) = points_overlay env st"
  by (simp_all add: points_overlay_def split: option.splits)

lemma points_overlay_decode [simp]: "points_overlay env (decode st) = points_overlay env st"
  by (simp add: decode_def Let_def throw_def spawn_def points_overlay_def split: option.splits)

lemma scaled_concat:
  "concat (map (\<lambda>x. [js_mul (fst (position x)) (snd hw), js_mul (snd (position x)) (fst hw)]) pts) =
     scaled hw pts"
  by (induction pts) simp_all

lemma labels_of_map: "map (\<lambda>x. int (label x)) pts = labels_of pts"
  by (induction pts) simp_all

text \<open>The call that \<^verbatim>\<open>decode\<close> prepares is the call that carries the stored points.\<close>

lemma make_call_points:
  assumes "make_call st = Some c" "imageProcessed st = Some ip" "lastPoints st = Some pts"
      and "reshaped_input_sizes ip = hw # rest"
  shows "c = points_call (model st) (imageEmbeddings st) hw pts"
  using assms
  by (auto simp: make_call_def scale_points_def typed_get_def points_call_def scaled_concat
      labels_of_map)

lemma lastPoints_decode [simp]: "lastPoints (decode st) = lastPoints st"
  by (simp add: decode_def Let_def throw_def spawn_def split: option.splits)

lemma settle_done:
  assumes "shape env st" "fresh env st" "wf_env env"
  shows "shape env (settle env st k Done) \<and> fresh env (settle env st k Done) \<and>
         lastPoints (settle env st k Done) = lastPoints st \<and>
         points_overlay env (settle env st k Done) = points_overlay env st \<and>
         (settled_ok env st \<longrightarrow> settled_ok env (settle env st k Done)) \<and>
         (k = 0 \<longrightarrow> rank (settle env st k Done) = rank st - 1) \<and>
         rank st \<le> 4"
  using assms(1)
proof (cases rule: shape_cases)
  case idle
  then show ?thesis using assms by (simp add: settle_idle rank_def)
next
  case (model c)
  from assms(1) obtain ip where ip: "imageProcessed st = Some ip"
    by (auto simp: shape_def proc_ok_def split: option.splits)
  show ?thesis
  proof (cases "k = 0")
    case True
    show ?thesis
      using assms model ip True
      by (auto simp: settle_model_step [OF model(1) ip] shape_def fresh_def proc_ok_def
          settled_ok_def rank_def)
  next
    case False
    then show ?thesis using assms model by (simp add: settle_beyond rank_def)
  qed
next
  case (post c ip)
  let ?cv = "render_overlay (post_process_masks env (model st) (pred_masks (run_model env c)) ip)
               (iou_scores (run_model env c))"
  let ?st2 = "st\<lparr>tasks := [], isDecoding := False, maskCanvas := ?cv,
      statusText := Segment_score (iou_scores (run_model env c) ! select_best (iou_scores (run_model env c)))\<rparr>"
  note stp = settle_post_step [OF post(1) assms(3) refl]
  show ?thesis
  proof (cases "k = 0")
    case False
    then show ?thesis using assms post by (simp add: settle_beyond rank_def)
  next
    case True
    show ?thesis
    proof (cases "decodePending st")
      case False
      from assms(2) False post(1) have mc: "make_call st = Some c \<or>
          (\<exists>c'. make_call st = Some c' \<and> run_model env c = run_model env c')"
        by (auto simp: fresh_def)
      from assms(1) post(4) obtain hw rest where hw: "reshaped_input_sizes ip = hw # rest"
        by (cases "reshaped_input_sizes ip") (auto simp: shape_def proc_ok_def)
      from post(3) obtain pts where pts: "lastPoints st = Some pts" by auto
      from mc obtain c' where c': "make_call st = Some c'" "run_model env c = run_model env c'"
        by auto
      note pc = make_call_points [OF c'(1) post(4) pts hw]
      have eo: "points_overlay env st = Some ?cv"
        using c'(2) by (simp add: points_overlay_def overlay_of_points_def pts post(4) hw pc [symmetric])
      have st': "settle env st 0 Done = ?st2" using stp False by simp
      show ?thesis
        using assms(1) post True False eo
        by (simp add: st' shape_def fresh_def proc_ok_def settled_ok_def rank_def)
    next
      case pend: True
      let ?st3 = "st\<lparr>tasks := [], isDecoding := False, maskCanvas := ?cv,
        statusText := Segment_score (iou_scores (run_model env c) ! select_best (iou_scores (run_model env c))),
        decodePending := False\<rparr>"
      have st': "settle env st 0 Done = decode ?st3" using stp pend by simp
      have sh: "shape env ?st3" using assms(1) post by (simp add: shape_def proc_ok_def)
      have lp: "lastPoints ?st3 \<noteq> None" using post by simp
      from sh lp obtain c' where c': "make_call ?st3 = Some c'"
        by (auto simp: shape_def elim: make_call_Some)
      have d: "decode ?st3 = ?st3\<lparr>isDecoding := True, tasks := tasks ?st3 @ [T_model c']\<rparr>"
        by (rule decode_idle) (simp_all add: c' del: make_call_simps)
      have r: "rank (decode ?st3) = 2" unfolding d by (simp add: rank_def)
      have r0: "rank st = 3" using post pend by (simp add: rank_def)
      from shape_decode [OF sh lp, of ] True pend r r0 show ?thesis
        by (simp add: st' settled_ok_def)
    qed
  qed
qed

lemma ready_inv: "ready st \<Longrightarrow> shape env st \<and> fresh env st"
  by (simp add: ready_def shape_def fresh_def)

lemma is_settleE: "is_settle ev \<Longrightarrow> (\<And>k. ev = Settle k Done \<Longrightarrow> P) \<Longrightarrow> P"
  by (cases "ev" rule: is_settle.cases) simp_all

lemma step_inv:
  assumes "shape env st" "fresh env st" "wf_env env" "decode_traffic ev"
  shows "shape env (step env st ev) \<and> fresh env (step env st ev) \<and>
         (settled_ok env st \<longrightarrow> settled_ok env (step env st ev)) \<and>
         (requests_decode st ev \<longrightarrow> tasks (step env st ev) \<noteq> [])"
  using assms(4)
proof (cases ev rule: decode_traffic.cases)
  case (1 e)
  show ?thesis
  proof (cases "mousedown_ignored st e")
    case True
    with 1 assms show ?thesis by (simp add: mousedown_def)
  next
    case False
    from mousedown_inv [OF assms(1) False] 1 show ?thesis
      by (simp add: settled_ok_def)
  qed
next
  case (2 e)
  show ?thesis
  proof (cases "mousemove_ignored st")
    case True
    with 2 assms show ?thesis by (simp add: mousemove_def)
  next
    case False
    from mousemove_inv [OF assms(1) False, of e] 2 show ?thesis
      by (simp add: settled_ok_def)
  qed
next
  case (3 k)
  from settle_done [OF assms(1-3), of k] 3 show ?thesis by simp
qed simp_all

lemma run_inv:
  assumes "shape env st" "fresh env st" "wf_env env" "\<forall>ev\<in>set evs. decode_traffic ev"
  shows "shape env (run env st evs) \<and> fresh env (run env st evs)"
  using assms
proof (induction evs arbitrary: st)
  case Nil
  then show ?case by simp
next
  case (Cons ev evs)
  from step_inv [OF Cons.prems(1-3), of ev] Cons.prems(4)
  have "shape env (step env st ev)" "fresh env (step env st ev)" by simp_all
  from Cons.IH [OF this Cons.prems(3)] Cons.prems(4) show ?case by simp
qed

lemma run_settles:
  assumes "shape env st" "fresh env st" "wf_env env" "\<forall>ev\<in>set evs. is_settle ev"
  shows "lastPoints (run env st evs) = lastPoints st \<and>
         points_overlay env (run env st evs) = points_overlay env st \<and>
         (settled_ok env st \<longrightarrow> settled_ok env (run env st evs))"
  using assms
proof (induction evs arbitrary: st)
  case Nil
  then show ?case by simp
next
  case (Cons ev evs)
  from Cons.prems(4) obtain k where ev: "ev = Settle k Done"
    by (auto elim: is_settleE)
  note sd = settle_done [OF Cons.prems(1-3), of k]
  from sd have "shape env (step env st ev)" "fresh env (step env st ev)" by (simp_all add: ev)
  from Cons.IH [OF this Cons.prems(3)] Cons.prems(4) sd show ?case by (simp add: ev)
qed

lemma rank_zero: "shape env st \<Longrightarrow> rank st = 0 \<Longrightarrow> tasks st = []"
  by (erule shape_cases) (simp_all add: rank_def split: if_splits)

lemma drain:
  assumes "shape env st" "fresh env st" "wf_env env" "rank st \<le> n"
  shows "tasks (run env st (replicate n (Settle 0 Done))) = []"
  using assms
proof (induction n arbitrary: st)
  case 0
  then show ?case by (simp add: rank_zero)
next
  case (Suc n)
  note sd = settle_done [OF Suc.prems(1-3), of 0]
  from sd Suc.prems(4) have "rank (settle env st 0 Done) \<le> n" by simp
  from Suc.IH [OF _ _ Suc.prems(3) this] sd show ?case by simp
qed

lemma coalesced:
  assumes "shape env st" "isDecoding st" "requests_decode st ev"
  shows "tasks (step env st ev) = tasks st \<and> decodePending (step env st ev)"
proof (cases ev)
  case (MouseDown e)
  with assms(3) have ni: "\<not> mousedown_ignored st e" by simp
  from assms(1) ni show ?thesis
    by (cases rule: mousedown_request) (simp_all add: MouseDown decode_busy assms(2))
next
  case (MouseMove e)
  with assms(3) have "\<not> mousemove_ignored st" by simp
  then show ?thesis by (simp add: MouseMove mousemove_def decode_busy assms(2))
qed (use assms(3) in simp_all)

lemma in_flight: "shape env st \<Longrightarrow> length (tasks st) = (if isDecoding st then 1 else 0)"
  by (erule shape_cases) simp_all

lemma inputs_decode [simp]: "decode_inputs (decode st) = decode_inputs st"
  by (simp add: decode_def Let_def throw_def spawn_def decode_inputs_def split: option.splits)

lemma inputs_mousedown [simp]: "decode_inputs (mousedown st e) = decode_inputs st"
proof -
  have "decode_inputs (decode s) = decode_inputs st" if "decode_inputs s = decode_inputs st" for s
    using that by simp
  then show ?thesis
    by (simp add: mousedown_def Let_def throw_def split: option.splits)
       (simp add: decode_inputs_def)
qed

lemma inputs_mousemove [simp]: "decode_inputs (mousemove st e) = decode_inputs st"
proof -
  have "decode_inputs (decode s) = decode_inputs st" if "decode_inputs s = decode_inputs st" for s
    using that by simp
  then show ?thesis
    by (simp add: mousemove_def) (simp add: decode_inputs_def)
qed

lemma inputs_settle:
  assumes "shape env st" "wf_env env"
  shows "decode_inputs (settle env st k Done) = decode_inputs st"
  using assms(1)
proof (cases rule: shape_cases)
  case idle
  then show ?thesis by (simp add: settle_idle)
next
  case (model c)
  from assms(1) obtain ip where ip: "imageProcessed st = Some ip"
    by (auto simp: shape_def proc_ok_def split: option.splits)
  show ?thesis
  proof (cases "k = 0")
    case True
    then show ?thesis by (simp add: settle_model_step [OF model(1) ip] decode_inputs_def)
  next
    case False
    with model show ?thesis by (simp add: settle_beyond)
  qed
next
  case (post c ip)
  show ?thesis
  proof (cases "k = 0")
    case True
    have "decode_inputs (decode s) = decode_inputs st" if "decode_inputs s = decode_inputs st" for s
      using that by simp
    then show ?thesis
      unfolding True settle_post_step [OF post(1) assms(2) refl]
      by (simp add: decode_inputs_def)
  next
    case False
    with post show ?thesis by (simp add: settle_beyond)
  qed
qed

lemma inputs_run:
  assumes "shape env st" "fresh env st" "wf_env env" "\<forall>ev\<in>set evs. decode_traffic ev"
  shows "decode_inputs (run env st evs) = decode_inputs st"
  using assms
proof (induction evs arbitrary: st)
  case Nil
  then show ?case by simp
next
  case (Cons ev evs)
  from step_inv [OF Cons.prems(1-3), of ev] Cons.prems(4)
  have s: "shape env (step env st ev)" "fresh env (step env st ev)" by simp_all
  have i: "decode_inputs (step env st ev) = decode_inputs st"
    using Cons.prems(4) inputs_settle [OF Cons.prems(1,3)]
    by (cases ev rule: decode_traffic.cases) simp_all
  from Cons.IH [OF s Cons.prems(3)] Cons.prems(4) i show ?case by simp
qed

lemma request_points:
  assumes "shape env st" "requests_decode st ev"
  shows "\<exists>pts. lastPoints (step env st ev) = Some pts \<and> pts \<noteq> [] \<and>
               request_point ev = Some (last pts)"
proof (cases ev)
  case (MouseDown e)
  with assms(2) have ni: "\<not> mousedown_ignored st e" by simp
  show ?thesis
  proof (cases "isMultiMaskMode st")
    case True
    with assms(1) obtain ps where "lastPoints st = Some ps" by (auto simp: shape_def)
    with True ni show ?thesis by (simp add: MouseDown mousedown_def)
  next
    case False
    with ni show ?thesis by (simp add: MouseDown mousedown_def)
  qed
next
  case (MouseMove e)
  with assms(2) show ?thesis by (simp add: mousemove_def)
qed (use assms(2) in simp_all)

text \<open>
  C1.  Start from a session that is ready (an embedding is present, nothing is in flight)
  and let any sequence of clicks, pointer moves and successful completions happen, with
  an inference collaborator that returns at least one score and a non-empty mask.  Then
  at every moment exactly one call of the decode pipeline is suspended when
  \<^verbatim>\<open>isDecoding\<close> is set and none otherwise; a request arriving while \<^verbatim>\<open>isDecoding\<close> is
  set starts no call and only sets \<^verbatim>\<open>decodePending\<close>; at most four completions drain the
  pipeline.  Once the pipeline is drained after a last request, the point list is the one
  that this request left in the store, ending with the point of the request, and the
  canvas shows the mask that the collaborator returns for the call carrying exactly
  these points (scaled coordinates and labels, in order) with the session's embedding.
\<close>

theorem single_flight_coalescing:
  assumes "ready st0" "wf_env env" "\<forall>ev\<in>set evs. decode_traffic ev"
  shows "length (tasks (run env st0 evs)) = (if isDecoding (run env st0 evs) then 1 else 0) \<and>
         (\<forall>e. isDecoding (run env st0 evs) \<and> requests_decode (run env st0 evs) e \<longrightarrow>
               tasks (step env (run env st0 evs) e) = tasks (run env st0 evs) \<and>
               decodePending (step env (run env st0 evs) e)) \<and>
         tasks (run env (run env st0 evs) (replicate 4 (Settle 0 Done))) = [] \<and>
         (\<forall>pre ev post.
             evs = pre @ ev # post \<and> requests_decode (run env st0 pre) ev \<and>
             (\<forall>e\<in>set post. is_settle e) \<and> tasks (run env st0 evs) = [] \<longrightarrow>
             (\<exists>pts ip.
                 lastPoints (step env (run env st0 pre) ev) = Some pts \<and>
                 pts \<noteq> [] \<and> request_point ev = Some (last pts) \<and>
                 lastPoints (run env st0 evs) = Some pts \<and>
                 imageProcessed st0 = Some ip \<and>
                 Some (maskCanvas (run env st0 evs)) =
                   overlay_of_points env (model st0) (imageEmbeddings st0) ip pts))"
proof -
  note i0 = ready_inv [OF assms(1), of env]
  from run_inv [OF i0 [THEN conjunct1] i0 [THEN conjunct2] assms(2,3)]
  have sh: "shape env (run env st0 evs)" and fr: "fresh env (run env st0 evs)" by simp_all
  have a: "length (tasks (run env st0 evs)) = (if isDecoding (run env st0 evs) then 1 else 0)"
    by (rule in_flight [OF sh])
  have b: "\<forall>e. isDecoding (run env st0 evs) \<and> requests_decode (run env st0 evs) e \<longrightarrow>
               tasks (step env (run env st0 evs) e) = tasks (run env st0 evs) \<and>
               decodePending (step env (run env st0 evs) e)"
    using coalesced [OF sh] by blast
  have "rank (run env st0 evs) \<le> 4" using settle_done [OF sh fr assms(2), of 0] by simp
  then have c: "tasks (run env (run env st0 evs) (replicate 4 (Settle 0 Done))) = []"
    by (rule drain [OF sh fr assms(2)])
  from assms(1) obtain ip where ip: "imageProcessed st0 = Some ip"
    by (auto simp: ready_def proc_ok_def split: option.splits)
  have d: "\<exists>pts ip.
             lastPoints (step env (run env st0 pre) ev) = Some pts \<and>
             pts \<noteq> [] \<and> request_point ev = Some (last pts) \<and>
             lastPoints (run env st0 evs) = Some pts \<and>
             imageProcessed st0 = Some ip \<and>
             Some (maskCanvas (run env st0 evs)) =
               overlay_of_points env (model st0) (imageEmbeddings st0) ip pts"
    if e: "evs = pre @ ev # post" and r: "requests_decode (run env st0 pre) ev"
      and p: "\<forall>e\<in>set post. is_settle e" and t: "tasks (run env st0 evs) = []"
    for pre ev post
  proof -
    let ?s1 = "run env st0 pre"
    let ?s2 = "step env ?s1 ev"
    from assms(3) e have tp: "\<forall>ev\<in>set pre. decode_traffic ev" and te: "decode_traffic ev" by simp_all
    from run_inv [OF i0 [THEN conjunct1] i0 [THEN conjunct2] assms(2) tp]
    have s1: "shape env ?s1" and f1: "fresh env ?s1" by simp_all
    note st = step_inv [OF s1 f1 assms(2) te]
    from st r have s2: "shape env ?s2" and f2: "fresh env ?s2" and ok: "settled_ok env ?s2"
      by (simp_all add: settled_ok_def)
    have ru: "run env st0 evs = run env ?s2 post"
      by (simp add: e run_append)
    from request_points [OF s1 r] obtain pts where
      pts: "lastPoints ?s2 = Some pts" "pts \<noteq> []" "request_point ev = Some (last pts)"
      by blast
    from inputs_run [OF i0 [THEN conjunct1] i0 [THEN conjunct2] assms(2,3)]
    have inp: "model (run env st0 evs) = model st0"
      "imageEmbeddings (run env st0 evs) = imageEmbeddings st0"
      "imageProcessed (run env st0 evs) = imageProcessed st0"
      by (simp_all add: decode_inputs_def)
    from run_settles [OF s2 f2 assms(2) p] ok t
    have lp: "lastPoints (run env st0 evs) = Some pts"
      and cv: "Some (maskCanvas (run env st0 evs)) = points_overlay env (run env st0 evs)"
      by (simp_all add: ru settled_ok_def pts(1))
    have "points_overlay env (run env st0 evs) =
        overlay_of_points env (model st0) (imageEmbeddings st0) ip pts"
      by (simp add: points_overlay_def lp inp ip)
    with cv lp pts ip show ?thesis by simp
  qed
  from a b c d show ?thesis by blast
qed

lemma wf_env1: "wf_env env1"
  by (simp add: wf_env_def env1_def mask0_def mask1_def)

lemma ready_ready0: "ready ready0"
  by (simp add: ready_def ready0_def init_session_def proc_ok_def ip0_def)

lemma fill_mask1:
  "fill_mask (img_data mask1) (length [Num (7/10), Num (91/100), Num (91/100)])
      (select_best [Num (7/10), Num (91/100), Num (91/100)]) (blank (img_width mask1) (img_height mask1)) =
     [0, 0, 0, 0, 0, 114, 189, 255]"
  by (simp add: select_best_example)
     (simp add: fill_mask_def fill_step_def fill_pixel_def inside_def typed_get_def blank_def
      mask1_def upt_rec numeral_eq_Suc)

lemma update_mask1:
  "updateMaskOverlay st mask1 [Num (7/10), Num (91/100), Num (91/100)] =
     (st\<lparr>maskCanvas := \<lparr>cv_width = 1, cv_height = 2, cv_data = [0, 0, 0, 0, 0, 114, 189, 255]\<rparr>,
         statusText := Segment_score (Num (91/100))\<rparr>, None)"
proof -
  have "0 < img_width mask1" "0 < img_height mask1" "[Num (7/10), Num (91/100), Num (91/100)] \<noteq> []"
    by (simp_all add: mask1_def)
  from updateMaskOverlay_ok [OF this] show ?thesis
    unfolding render_overlay_def fill_mask1 by (simp add: select_best_example mask1_def)
qed

lemma render_mask1:
  "render_overlay mask1 [Num (7/10), Num (91/100), Num (91/100)] =
     \<lparr>cv_width = 1, cv_height = 2, cv_data = [0, 0, 0, 0, 0, 114, 189, 255]\<rparr>"
  unfolding render_overlay_def fill_mask1 by (simp add: mask1_def)

lemma burst_run:
  "tasks (run env1 ready0 burst) = []"
  "maskCanvas (run env1 ready0 burst) =
     \<lparr>cv_width = 1, cv_height = 2, cv_data = [0, 0, 0, 0, 0, 114, 189, 255]\<rparr>"
  "length (tasks (run env1 ready0 [MouseDown click0, MouseDown click0])) = 1"
  "lastPoints (step env1 (run env1 ready0 [MouseDown click0]) (MouseDown click0)) =
     Some [\<lparr>position = (Num (1/2), Num (3/5)), label = 1\<rparr>,
           \<lparr>position = (Num (1/2), Num (3/5)), label = 1\<rparr>]"
  by (simp_all add: burst_def ready0_def init_session_def handler_defs getPoint_click0
      click0_button ip0_def env1_def update_mask0 update_mask1)

lemma overlay_two_points:
  "overlay_of_points env1 Slimsam (Some 7) ip0
      [\<lparr>position = (Num (1/2), Num (3/5)), label = 1\<rparr>,
       \<lparr>position = (Num (1/2), Num (3/5)), label = 1\<rparr>] =
     Some \<lparr>cv_width = 1, cv_height = 2, cv_data = [0, 0, 0, 0, 0, 114, 189, 255]\<rparr>"
  "overlay_of_points env1 Slimsam (Some 7) ip0
      [\<lparr>position = (Num (1/2), Num (3/5)), label = 1\<rparr>] =
     Some \<lparr>cv_width = 1, cv_height = 2, cv_data = [0, 114, 189, 255, 0, 0, 0, 0]\<rparr>"
  by (simp_all add: overlay_of_points_def ip0_def env1_def points_call_def render_mask0
      render_mask1)

theorem single_flight_coalescing_witness:
  "length (tasks (run env1 ready0 [MouseDown click0, MouseDown click0])) = 1 \<and>
   tasks (run env1 ready0 burst) = [] \<and>
   lastPoints (run env1 ready0 burst) =
     Some [\<lparr>position = (Num (1/2), Num (3/5)), label = 1\<rparr>,
           \<lparr>position = (Num (1/2), Num (3/5)), label = 1\<rparr>] \<and>
   Some (maskCanvas (run env1 ready0 burst)) =
     overlay_of_points env1 Slimsam (Some 7) ip0
       [\<lparr>position = (Num (1/2), Num (3/5)), label = 1\<rparr>,
        \<lparr>position = (Num (1/2), Num (3/5)), label = 1\<rparr>] \<and>
   overlay_of_points env1 Slimsam (Some 7) ip0
       [\<lparr>position = (Num (1/2), Num (3/5)), label = 1\<rparr>,
        \<lparr>position = (Num (1/2), Num (3/5)), label = 1\<rparr>] =
     Some \<lparr>cv_width = 1, cv_height = 2, cv_data = [0, 0, 0, 0, 0, 114, 189, 255]\<rparr> \<and>
   overlay_of_points env1 Slimsam (Some 7) ip0
       [\<lparr>position = (Num (1/2), Num (3/5)), label = 1\<rparr>] =
     Some \<lparr>cv_width = 1, cv_height = 2, cv_data = [0, 114, 189, 255, 0, 0, 0, 0]\<rparr>"
proof -
  have t: "\<forall>ev\<in>set burst. decode_traffic ev" by (simp add: burst_def)
  have d: "burst = [MouseDown click0] @ MouseDown click0 #
             [Settle 0 Done, Settle 0 Done, Settle 0 Done, Settle 0 Done]"
    by (simp add: burst_def)
  have r: "requests_decode (run env1 ready0 [MouseDown click0]) (MouseDown click0)"
    by (simp add: ready0_def init_session_def handler_defs click0_button ip0_def)
  have p: "\<forall>e\<in>set [Settle 0 Done, Settle 0 Done, Settle 0 Done, Settle 0 Done]. is_settle e"
    by simp
  have i: "imageProcessed ready0 = Some ip0" "model ready0 = Slimsam"
      "imageEmbeddings ready0 = Some 7"
    by (simp_all add: ready0_def init_session_def)
  from single_flight_coalescing [OF ready_ready0 wf_env1 t] d r p burst_run(1)
  obtain pts ip where
    "lastPoints (step env1 (run env1 ready0 [MouseDown click0]) (MouseDown click0)) = Some pts"
    "lastPoints (run env1 ready0 burst) = Some pts"
    "imageProcessed ready0 = Some ip"
    "Some (maskCanvas (run env1 ready0 burst)) =
       overlay_of_points env1 (model ready0) (imageEmbeddings ready0) ip pts"
    by blast
  then have
    "lastPoints (run env1 ready0 burst) =
       Some [\<lparr>position = (Num (1/2), Num (3/5)), label = 1\<rparr>,
             \<lparr>position = (Num (1/2), Num (3/5)), label = 1\<rparr>]"
    "Some (maskCanvas (run env1 ready0 burst)) =
       overlay_of_points env1 Slimsam (Some 7) ip0
         [\<lparr>position = (Num (1/2), Num (3/5)), label = 1\<rparr>,
          \<lparr>position = (Num (1/2), Num (3/5)), label = 1\<rparr>]"
    using burst_run(4) i by simp_all
  with burst_run(1,3) overlay_two_points show ?thesis by simp
qed

end
